theory Spec2Isabelle
  imports Main
begin

section \<open>Strings as the pipeline uses them\<close>

text \<open>
  The program is \<^verbatim>\<open>task1_clean_and_report.py\<close>. Python strings are modelled as
  \<^typ>\<open>string\<close>; a character stands for a code point below 256. \<open>str.strip()\<close> without
  arguments removes the characters for which \<open>str.isspace()\<close> holds, which below 256 are
  the code points 9 to 13, 28 to 32, 133 and 160.
\<close>

definition is_space :: "char \<Rightarrow> bool" where
  "is_space c = ((of_char c :: nat) \<in> {9, 10, 11, 12, 13, 28, 29, 30, 31, 32, 133, 160})"

definition strip :: "string \<Rightarrow> string" where
  "strip s = rev (dropWhile is_space (rev (dropWhile is_space s)))"

text \<open>
  \<open>str.lower()\<close>: the upper-case letters below 256 are \<open>A\<close> to \<open>Z\<close> and the code points
  192 to 222 without 215; each is mapped to the code point 32 above it, which is the same
  character with bit 5 set.
\<close>

definition lower_char :: "char \<Rightarrow> char" where
  "lower_char c =
     (let n = (of_char c :: nat)
      in if (65 \<le> n \<and> n \<le> 90) \<or> (192 \<le> n \<and> n \<le> 222 \<and> n \<noteq> 215)
         then (case c of Char b0 b1 b2 b3 b4 b5 b6 b7 \<Rightarrow> Char b0 b1 b2 b3 b4 True b6 b7)
         else c)"

definition lower :: "string \<Rightarrow> string" where
  "lower s = map lower_char s"

section \<open>The email pattern\<close>

text \<open>
  \<open>EMAIL_REGEX\<close> is \<^verbatim>\<open>(^[a-zA-Z0-9_.+-]+@[a-zA-Z0-9-]+\.[a-zA-Z0-9-.]+$)\<close>. The pattern is a
  sequence of anchors, literal characters and one-or-more repetitions of a character class;
  a class is a list of inclusive ranges. \<open>re_run b ps s\<close> says that the items \<open>ps\<close> match a
  prefix of \<open>s\<close>, where \<open>b\<close> tells whether \<open>s\<close> starts at the beginning of the subject. Without
  the MULTILINE flag \<open>$\<close> matches at the end of the subject and also just before a newline that
  ends it. \<open>re.match\<close> tries the pattern at the beginning of the subject only.
\<close>

type_synonym char_class = "(char \<times> char) list"

definition in_range :: "char \<Rightarrow> char \<Rightarrow> char \<Rightarrow> bool" where
  "in_range lo hi c = ((of_char lo :: nat) \<le> of_char c \<and> (of_char c :: nat) \<le> of_char hi)"

definition in_class :: "char_class \<Rightarrow> char \<Rightarrow> bool" where
  "in_class cls c = list_ex (\<lambda>(lo, hi). in_range lo hi c) cls"

datatype re_item = Bol | Eol | Lit char | PlusClass char_class

fun re_run :: "bool \<Rightarrow> re_item list \<Rightarrow> string \<Rightarrow> bool" where
  "re_run b [] s = True"
| "re_run b (Bol # ps) s = (b \<and> re_run b ps s)"
| "re_run b (Eol # ps) s = ((s = [] \<or> s = [CHR 0x0A]) \<and> re_run b ps s)"
| "re_run b (Lit c # ps) [] = False"
| "re_run b (Lit c # ps) (x # xs) = (x = c \<and> re_run False ps xs)"
| "re_run b (PlusClass cls # ps) [] = False"
| "re_run b (PlusClass cls # ps) (x # xs) =
     (in_class cls x \<and> (re_run False (PlusClass cls # ps) xs \<or> re_run False ps xs))"

definition re_match :: "re_item list \<Rightarrow> string \<Rightarrow> bool" where
  "re_match r s = re_run True r s"

definition alnum :: char_class where
  "alnum = [(CHR ''a'', CHR ''z''), (CHR ''A'', CHR ''Z''), (CHR ''0'', CHR ''9'')]"

definition local_class :: char_class where
  "local_class = alnum @ [(CHR ''_'', CHR ''_''), (CHR ''.'', CHR ''.''),
                          (CHR ''+'', CHR ''+''), (CHR ''-'', CHR ''-'')]"

definition domain_class :: char_class where
  "domain_class = alnum @ [(CHR ''-'', CHR ''-'')]"

definition tld_class :: char_class where
  "tld_class = alnum @ [(CHR ''-'', CHR ''-''), (CHR ''.'', CHR ''.'')]"

definition EMAIL_REGEX :: "re_item list" where
  "EMAIL_REGEX =
     [Bol, PlusClass local_class, Lit CHR ''@'', PlusClass domain_class, Lit CHR ''.'',
      PlusClass tld_class, Eol]"

section \<open>Cells and data frames\<close>

text \<open>
  A cell of a pandas frame: a string, the missing value \<open>NaN\<close> of an object column, a
  boolean, a timestamp (nanoseconds since 1970-01-01 00:00), the missing timestamp \<open>NaT\<close>,
  or a \<open>datetime.date\<close> (days since 1970-01-01). \<open>read_csv(path, dtype=str)\<close> delivers
  strings and \<open>NaN\<close> only.
\<close>

datatype cell = Str string | NaN | Bool bool | Ts int | NaT | Day int

fun isna :: "cell \<Rightarrow> bool" where
  "isna NaN = True"
| "isna NaT = True"
| "isna _ = False"

text \<open>
  \<open>str(e)\<close>. The renderings of timestamps and dates are pandas' own and are taken as the
  parameter \<open>R\<close>; the pipeline applies \<open>str\<close> to the email column only.
\<close>

fun py_str :: "(cell \<Rightarrow> string) \<Rightarrow> cell \<Rightarrow> string" where
  "py_str R (Str s) = s"
| "py_str R NaN = ''nan''"
| "py_str R NaT = ''NaT''"
| "py_str R (Bool b) = (if b then ''True'' else ''False'')"
| "py_str R c = R c"

definition valid_email :: "(cell \<Rightarrow> string) \<Rightarrow> cell \<Rightarrow> bool" where
  "valid_email R e = (if isna e then False else re_match EMAIL_REGEX (strip (py_str R e)))"

text \<open>
  A frame has a row index (the row labels, which filtering keeps) and labelled columns in
  header order. \<open>read_csv\<close> makes the labels distinct, but line 58 trims them, and two
  labels that differ in surrounding blanks only are the same label afterwards. The frame is
  well formed when every column has one cell per row and the labels stay distinct after
  trimming.
\<close>

record dataframe =
  index :: "nat list"
  cols :: "(string \<times> cell list) list"

definition len :: "dataframe \<Rightarrow> nat" where
  "len df = length (index df)"

definition columns :: "dataframe \<Rightarrow> string list" where
  "columns df = map fst (cols df)"

definition cols_ok :: "dataframe \<Rightarrow> bool" where
  "cols_ok df = list_all (\<lambda>cv. length (snd cv) = len df) (cols df)"

definition wf_frame :: "dataframe \<Rightarrow> bool" where
  "wf_frame df = (cols_ok df \<and> distinct (map strip (columns df)))"

text \<open>
  The exceptions that the pipeline can raise, each with its message. \<open>quoted\<close> is the
  \<open>repr\<close> of a label in such a message.
\<close>

datatype error = ValueError string | KeyError string | AttributeError string | TypeError string

definition quoted :: "string \<Rightarrow> string" where
  "quoted s = CHR 0x27 # s @ [CHR 0x27]"

definition bindE :: "'e + 'a \<Rightarrow> ('a \<Rightarrow> 'e + 'b) \<Rightarrow> 'e + 'b" where
  "bindE m f = (case m of Inl e \<Rightarrow> Inl e | Inr x \<Rightarrow> f x)"

text \<open>
  \<open>df[c]\<close>. pandas raises \<open>KeyError\<close> when no column has the label \<open>c\<close>, gives the column
  as a \<open>Series\<close> when one column has it, and gives a \<open>DataFrame\<close> of all the columns that
  have it when there are several. \<open>labelled df c\<close> are the columns with the label \<open>c\<close>.
\<close>

datatype selection = Series "cell list" | Frame "cell list list"

definition labelled :: "dataframe \<Rightarrow> string \<Rightarrow> cell list list" where
  "labelled df c = map snd (filter (\<lambda>cv. fst cv = c) (cols df))"

definition getitem :: "dataframe \<Rightarrow> string \<Rightarrow> error + selection" where
  "getitem df c =
     (case labelled df c of
        [] \<Rightarrow> Inl (KeyError c)
      | vs # [] \<Rightarrow> Inr (Series vs)
      | vs # ws # rest \<Rightarrow> Inr (Frame (vs # ws # rest)))"

text \<open>
  \<open>df[c] = values\<close> replaces every column labelled \<open>c\<close>, or appends a new column when
  there is none. \<open>df.drop(columns=[c])\<close> removes every column labelled \<open>c\<close> and raises
  \<open>KeyError\<close> when there is none.
\<close>

definition setitem :: "dataframe \<Rightarrow> string \<Rightarrow> cell list \<Rightarrow> dataframe" where
  "setitem df c vs =
     df\<lparr>cols := (if c \<in> set (columns df)
                 then map (\<lambda>cv. if fst cv = c then (c, vs) else cv) (cols df)
                 else cols df @ [(c, vs)])\<rparr>"

definition drop_column :: "dataframe \<Rightarrow> string \<Rightarrow> error + dataframe" where
  "drop_column df c =
     (if c \<in> set (columns df) then Inr (df\<lparr>cols := filter (\<lambda>cv. fst cv \<noteq> c) (cols df)\<rparr>)
      else Inl (KeyError (''['' @ quoted c @ ''] not found in axis'')))"

definition rename_strip :: "dataframe \<Rightarrow> dataframe" where
  "rename_strip df = df\<lparr>cols := map (\<lambda>cv. (strip (fst cv), snd cv)) (cols df)\<rparr>"

text \<open>\<open>df[mask]\<close>: the rows whose mask entry is true, in order, with their index labels.\<close>

definition select :: "bool list \<Rightarrow> 'a list \<Rightarrow> 'a list" where
  "select m xs = map snd (filter fst (zip m xs))"

definition take_mask :: "bool list \<Rightarrow> dataframe \<Rightarrow> dataframe" where
  "take_mask m df =
     \<lparr>index = select m (index df), cols = map (\<lambda>cv. (fst cv, select m (snd cv))) (cols df)\<rparr>"

text \<open>
  \<open>duplicated(keep='first')\<close>: an entry is a duplicate when an equal entry stands before
  it. \<open>drop_duplicates(subset=[c])\<close> returns a frame that is empty (no row or no column)
  as it is, without looking at \<open>c\<close>. Otherwise it raises \<open>KeyError\<close> when no column is
  labelled \<open>c\<close>, and keeps the rows that are not duplicates, where the key of a row is
  its cells in the columns labelled \<open>c\<close>.
\<close>

fun duplicated :: "'a list \<Rightarrow> 'a list \<Rightarrow> bool list" where
  "duplicated seen [] = []"
| "duplicated seen (x # xs) = (x \<in> set seen) # duplicated (x # seen) xs"

definition frame_empty :: "dataframe \<Rightarrow> bool" where
  "frame_empty df = (len df = 0 \<or> cols df = [])"

definition drop_duplicates :: "dataframe \<Rightarrow> string \<Rightarrow> error + dataframe" where
  "drop_duplicates df c =
     (if frame_empty df then Inr df
      else case labelled df c of
             [] \<Rightarrow> Inl (KeyError (''Index(['' @ quoted c @ ''], dtype='object')''))
           | ks \<Rightarrow> Inr (take_mask (map Not (duplicated [] (transpose ks))) df))"

section \<open>Dates\<close>

text \<open>
  \<open>pd.to_datetime(arg, errors="coerce")\<close>. Given a \<open>DataFrame\<close> with a repeated label it
  raises \<open>ValueError\<close>. Given a column that holds timestamps already it returns the column
  as it is. Otherwise the lenient parser of pandas is the parameter \<open>P\<close>, which sees the
  whole column \<open>vs\<close> (pandas may infer one format for it): \<open>P vs\<close> is either an exception,
  which \<open>errors="coerce"\<close> does not suppress (pandas raises \<open>ValueError\<close> for a column that
  mixes time zone offsets), or a function that gives the timestamp read from entry \<open>i\<close>, and
  \<open>None\<close> where the entry is missing or cannot be read. Time zones are not modelled.
\<close>

type_synonym parser = "cell list \<Rightarrow> error + (nat \<Rightarrow> int option)"

fun is_datetime :: "cell \<Rightarrow> bool" where
  "is_datetime (Ts t) = True"
| "is_datetime NaT = True"
| "is_datetime _ = False"

definition to_datetime :: "parser \<Rightarrow> selection \<Rightarrow> error + cell list" where
  "to_datetime P arg =
     (case arg of
        Frame vss \<Rightarrow> Inl (ValueError ''cannot assemble with duplicate keys'')
      | Series vs \<Rightarrow>
          if list_all is_datetime vs then Inr vs
          else bindE (P vs) (\<lambda>ts.
                 Inr (map (\<lambda>i. case ts i of None \<Rightarrow> NaT | Some t \<Rightarrow> Ts t) [0..<length vs])))"

definition ns_per_day :: int where
  "ns_per_day = 86400000000000"

text \<open>
  \<open>.dt.date\<close> is the calendar day of a timestamp. \<open>.dt.to_period("W")\<close> is the week
  (Monday to Sunday) that holds the timestamp, here the number of the week counted from the
  week of 1970-01-01, a Thursday; the \<open>start_time\<close> of a week is its Monday, three days
  before the epoch for week 0. Both accessors are applied to the column that
  \<open>to_datetime\<close> or the \<open>NaT\<close> fill has just produced.
\<close>

fun dt_date :: "cell \<Rightarrow> cell" where
  "dt_date (Ts t) = Day (t div ns_per_day)"
| "dt_date _ = NaT"

fun to_period_W :: "cell \<Rightarrow> int option" where
  "to_period_W (Ts t) = Some ((t div ns_per_day + 3) div 7)"
| "to_period_W _ = None"

definition start_time_date :: "int \<Rightarrow> int" where
  "start_time_date w = 7 * w - 3"

definition week_start :: "int option \<Rightarrow> cell" where
  "week_start r = (case r of Some w \<Rightarrow> Day (start_time_date w) | None \<Rightarrow> NaT)"


section \<open>\<open>clean_leads\<close>\<close>

definition is_email_name :: "string \<Rightarrow> bool" where
  "is_email_name c = (lower c = ''email'')"

definition is_date_name :: "string \<Rightarrow> bool" where
  "is_date_name c = (lower c \<in> {''date'', ''created_at'', ''lead_date''})"

text \<open>
  Line 69 trims the email column. When several columns carry the email label, \<open>df[email_col]\<close>
  is a \<open>DataFrame\<close>, which has no attribute \<open>str\<close>.
\<close>

definition trim_emails :: "(cell \<Rightarrow> string) \<Rightarrow> dataframe \<Rightarrow> string \<Rightarrow> error + dataframe" where
  "trim_emails R df email_col =
     bindE (getitem df email_col) (\<lambda>sel.
       case sel of
         Series ev \<Rightarrow> Inr (setitem df email_col (map (\<lambda>e. Str (strip (py_str R e))) ev))
       | Frame evs \<Rightarrow>
           Inl (AttributeError (quoted ''DataFrame'' @ '' object has no attribute '' @ quoted ''str'')))"

text \<open>
  Line 72 marks the rows with a valid email. \<open>DataFrame.apply\<close> would hand whole columns
  to \<open>valid_email\<close>, whose test \<open>if pd.isna(e)\<close> raises \<open>ValueError\<close> for a column.
\<close>

definition mark_valid :: "(cell \<Rightarrow> string) \<Rightarrow> dataframe \<Rightarrow> string \<Rightarrow> error + dataframe" where
  "mark_valid R df email_col =
     bindE (getitem df email_col) (\<lambda>sel.
       case sel of
         Series ev \<Rightarrow> Inr (setitem df ''__valid_email'' (map (\<lambda>e. Bool (valid_email R e)) ev))
       | Frame evs \<Rightarrow> Inl (ValueError ''The truth value of a Series is ambiguous. Use a.empty, a.bool(), a.item(), a.any() or a.all().''))"

text \<open>
  Line 73, \<open>df[df["__valid_email"]]\<close>. The marker column of a frame with rows holds
  booleans and selects the rows marked \<open>True\<close>. On a frame without rows \<open>apply\<close> has
  produced an empty column that is not of boolean type; pandas then reads the key as a list
  of column labels, an empty one, and the result has the index of the frame and no column
  at all. When several columns carry the marker label the key is a \<open>DataFrame\<close>, which
  pandas cannot align with the frame.
\<close>

definition keep_valid :: "dataframe \<Rightarrow> error + dataframe" where
  "keep_valid df =
     bindE (getitem df ''__valid_email'') (\<lambda>sel.
       case sel of
         Series mk \<Rightarrow>
           if mk = [] then Inr (df\<lparr>cols := []\<rparr>)
           else Inr (take_mask (map (\<lambda>b. b = Bool True) mk) df)
       | Frame mks \<Rightarrow> Inl (ValueError ''cannot reindex on an axis with duplicate labels''))"

text \<open>Lines 81 to 92: parse the date column, or create the column \<open>date\<close> filled with \<open>NaT\<close>.\<close>

definition parse_dates :: "parser \<Rightarrow> dataframe \<Rightarrow> dataframe \<Rightarrow> error + dataframe \<times> string" where
  "parse_dates P df valid_df =
     (case find is_date_name (columns df) of
        Some date_col \<Rightarrow>
          bindE (getitem valid_df date_col) (\<lambda>sel.
          bindE (to_datetime P sel) (\<lambda>dv.
            Inr (setitem valid_df date_col dv, date_col)))
      | None \<Rightarrow> Inr (setitem valid_df ''date'' (replicate (len valid_df) NaT), ''date''))"

text \<open>
  Lines 94 to 96: the helper columns \<open>lead_day\<close> and \<open>lead_week\<close>. The accessor \<open>dt\<close> is
  an attribute of a \<open>Series\<close> only.
\<close>

definition dt :: "selection \<Rightarrow> error + cell list" where
  "dt sel =
     (case sel of
        Series vs \<Rightarrow> Inr vs
      | Frame vss \<Rightarrow>
          Inl (AttributeError (quoted ''DataFrame'' @ '' object has no attribute '' @ quoted ''dt'')))"

definition add_helpers :: "dataframe \<Rightarrow> string \<Rightarrow> error + dataframe" where
  "add_helpers valid_df date_col =
     bindE (bindE (getitem valid_df date_col) dt) (\<lambda>dv.
       let valid_df = setitem valid_df ''lead_day'' (map dt_date dv)
       in bindE (bindE (getitem valid_df date_col) dt) (\<lambda>dv.
            Inr (setitem valid_df ''lead_week'' (map week_start (map to_period_W dv)))))"

definition clean_leads :: "parser \<Rightarrow> (cell \<Rightarrow> string) \<Rightarrow> dataframe \<Rightarrow> error + dataframe \<times> int \<times> int" where
  "clean_leads P R df0 =
     (let df = rename_strip df0
      in case find is_email_name (columns df) of
           None \<Rightarrow> Inl (ValueError ''Input CSV must contain an 'email' column'')
         | Some email_col \<Rightarrow>
             bindE (trim_emails R df email_col) (\<lambda>df.
             bindE (mark_valid R df email_col) (\<lambda>df.
             bindE (keep_valid df) (\<lambda>valid_df.
               let invalid_count = int (len df) - int (len valid_df);
                   n_before = len valid_df
               in bindE (drop_duplicates valid_df email_col) (\<lambda>valid_df.
                    let removed_dups = int n_before - int (len valid_df)
                    in bindE (parse_dates P df valid_df) (\<lambda>(valid_df, date_col).
                       bindE (add_helpers valid_df date_col) (\<lambda>valid_df.
                       bindE (drop_column valid_df ''__valid_email'') (\<lambda>valid_df.
                         Inr (valid_df, invalid_count, removed_dups)))))))))"

section \<open>\<open>generate_report\<close> and \<open>main\<close>\<close>

text \<open>
  \<open>df.groupby(key)[email_col].count()\<close> with the defaults \<open>sort=True\<close> and \<open>dropna=True\<close>:
  the rows whose key is missing belong to no group, there is one group for each distinct
  key that is left, the groups come in ascending key order, and the count of a group is the
  number of its rows whose email is not missing. The keys of the two helper columns are
  dates, ordered by their day number.
\<close>

fun day_number :: "cell \<Rightarrow> int" where
  "day_number (Day d) = d"
| "day_number _ = 0"

definition groupby_count :: "cell list \<Rightarrow> cell list \<Rightarrow> (cell \<times> nat) list" where
  "groupby_count ks vs =
     (let present = filter (\<lambda>kv. \<not> isna (fst kv)) (zip ks vs)
      in map (\<lambda>k. (k, length (filter (\<lambda>kv. fst kv = k \<and> \<not> isna (snd kv)) present)))
           (sort_key day_number (remdups (map fst present))))"

text \<open>
  The whole expression of lines 107 and 113. \<open>groupby\<close> raises \<open>ValueError\<close> when several
  columns carry the key label and \<open>KeyError\<close> when no column carries the email label; when
  several do, the count is a \<open>DataFrame\<close>, and \<open>rename("count")\<close> calls the string.
\<close>

definition groupby_email_count :: "dataframe \<Rightarrow> string \<Rightarrow> string \<Rightarrow> error + (cell \<times> nat) list" where
  "groupby_email_count df key email_col =
     bindE (getitem df key) (\<lambda>k.
       case k of
         Frame kss \<Rightarrow> Inl (ValueError (''Grouper for '' @ quoted key @ '' not 1-dimensional''))
       | Series ks \<Rightarrow>
           (case labelled df email_col of
              [] \<Rightarrow> Inl (KeyError (''Column not found: '' @ email_col))
            | vs # [] \<Rightarrow> Inr (groupby_count ks vs)
            | vs # ws # rest \<Rightarrow> Inl (TypeError (quoted ''str'' @ '' object is not callable''))))"

text \<open>\<open>Series.nunique()\<close>: the number of distinct values that are not missing.\<close>

definition nunique :: "cell list \<Rightarrow> nat" where
  "nunique vs = length (remdups (filter (\<lambda>v. \<not> isna v) vs))"

text \<open>
  The report: the rows of the sheets "Daily Leads" and "Weekly Leads" (key and count) and
  the two values of the sheet "Summary".
\<close>

record report =
  daily :: "(cell \<times> nat) list"
  weekly :: "(cell \<times> nat) list"
  total_leads :: nat
  unique_customers :: nat

definition generate_report :: "dataframe \<Rightarrow> string \<Rightarrow> error + report" where
  "generate_report df email_col =
     bindE (if ''lead_day'' \<in> set (columns df)
            then groupby_email_count df ''lead_day'' email_col
            else Inr []) (\<lambda>daily.
     bindE (if ''lead_week'' \<in> set (columns df)
            then groupby_email_count df ''lead_week'' email_col
            else Inr []) (\<lambda>weekly.
     bindE (getitem df email_col) (\<lambda>sel.
       case sel of
         Series vs \<Rightarrow>
           Inr \<lparr>daily = daily, weekly = weekly, total_leads = len df,
                unique_customers = nunique vs\<rparr>
       | Frame vss \<Rightarrow> Inl (TypeError (quoted ''str'' @ '' object is not callable'')))))"

text \<open>
  \<open>main\<close> without the file handling: the frame is the one \<open>load_csv\<close> has read. A
  \<open>ValueError\<close> of \<open>clean_leads\<close>, whichever line or library call has raised it, is printed
  after \<open>Error: \<close> and ends the run with status 2; any other exception is not caught.
  Otherwise the clean frame is written, the report is generated and the counters are
  printed.
\<close>

datatype outcome =
    Exit nat string
  | Uncaught error
  | Completed dataframe report int int

definition main :: "parser \<Rightarrow> (cell \<Rightarrow> string) \<Rightarrow> dataframe \<Rightarrow> outcome" where
  "main P R df =
     (case clean_leads P R df of
        Inl (ValueError msg) \<Rightarrow> Exit 2 (''Error: '' @ msg)
      | Inl e \<Rightarrow> Uncaught e
      | Inr (cleaned, invalid_count, removed_dups) \<Rightarrow>
          (case find is_email_name (columns cleaned) of
             None \<Rightarrow> Uncaught (KeyError ''Column not found: None'')
           | Some email_col \<Rightarrow>
               (case generate_report cleaned email_col of
                  Inl e \<Rightarrow> Uncaught e
                | Inr meta \<Rightarrow> Completed cleaned meta invalid_count removed_dups)))"

section \<open>The email pattern in the words of the specification\<close>

text \<open>
  The specification describes a valid email as \<open>local@domain.tld\<close>: one or more characters
  of \<open>[A-Za-z0-9_.+-]\<close>, the character \<open>@\<close>, one or more characters of \<open>[A-Za-z0-9-]\<close>, a
  dot, and one or more characters of \<open>[A-Za-z0-9-.]\<close>, with nothing before or after. The
  character sets are written out here, independently of the ranges of \<open>EMAIL_REGEX\<close>.
\<close>

definition spec_alnum :: string where
  "spec_alnum = ''ABCDEFGHIJKLMNOPQRSTUVWXYZabcdefghijklmnopqrstuvwxyz0123456789''"

definition spec_email_pattern :: "string \<Rightarrow> bool" where
  "spec_email_pattern s =
     (\<exists>l d t. s = l @ ''@'' @ d @ ''.'' @ t
        \<and> l \<noteq> [] \<and> set l \<subseteq> set (spec_alnum @ ''_.+-'')
        \<and> d \<noteq> [] \<and> set d \<subseteq> set (spec_alnum @ ''-'')
        \<and> t \<noteq> [] \<and> set t \<subseteq> set (spec_alnum @ ''-.''))"

section \<open>Observations on the input table\<close>

text \<open>
  The properties below speak about the input rows of a run. \<open>email_label\<close> and \<open>date_label\<close>
  are the columns that \<open>clean_leads\<close> resolves (lines 60 to 64 and 82 to 86),
  \<open>canonical_emails\<close> gives the trimmed email text of every input row (line 69), and
  \<open>column_of\<close> reads a column, empty when the label is absent.
\<close>

definition email_label :: "dataframe \<Rightarrow> string option" where
  "email_label df = find is_email_name (columns (rename_strip df))"

definition date_label :: "dataframe \<Rightarrow> string option" where
  "date_label df = find is_date_name (columns (rename_strip df))"

definition column_of :: "dataframe \<Rightarrow> string \<Rightarrow> cell list" where
  "column_of df c = (case getitem df c of Inr (Series vs) \<Rightarrow> vs | _ \<Rightarrow> [])"

definition canonical_emails :: "(cell \<Rightarrow> string) \<Rightarrow> dataframe \<Rightarrow> string list" where
  "canonical_emails R df =
     (case email_label df of
        None \<Rightarrow> []
      | Some c \<Rightarrow> map (\<lambda>e. strip (py_str R e)) (column_of (rename_strip df) c))"

definition is_valid_key :: "(cell \<Rightarrow> string) \<Rightarrow> string \<Rightarrow> bool" where
  "is_valid_key R k = valid_email R (Str k)"


text \<open>
  \<open>kept R df xs\<close> are the entries of a column \<open>xs\<close> of the input that stand in the rows
  surviving validation (line 73) and deduplication (line 78). \<open>first_positions ks\<close> are the
  positions that \<open>drop_duplicates\<close> keeps for the key column \<open>ks\<close>, and \<open>survivor_mask\<close> is
  the two masks of \<open>kept\<close> combined into one over the input rows: a row survives when it is
  valid and its key has not been seen in a valid row before.
\<close>

definition kept :: "(cell \<Rightarrow> string) \<Rightarrow> dataframe \<Rightarrow> 'a list \<Rightarrow> 'a list" where
  "kept R df xs =
     (let ks = canonical_emails R df;
          m = map (is_valid_key R) ks
      in select (map Not (duplicated [] (select m ks))) (select m xs))"



section \<open>A sample table\<close>

text \<open>
  A table of six leads, used to instantiate the properties. The first email-like column is
  \<open>Email\<close> and the first date-like column is \<open>created_at\<close>; the columns \<open>email\<close> and \<open>Date\<close>
  come later in the header. Row 1 repeats the email of row 0 between blanks, rows 2 and 5
  have no valid email, row 3 has no date, and row 4 differs from row 0 in letter case only.
  The sample parser reads the dates of the sample: 2024-01-01 is day 19723, a Monday.
\<close>

definition sample_dates :: "(string \<times> int) list" where
  "sample_dates =
     [(''2024-01-01'', 19723 * ns_per_day),
      (''2024-01-02'', 19724 * ns_per_day),
      (''2024-01-07 10:00'', 19729 * ns_per_day + 36000000000000),
      (''2024-01-08'', 19730 * ns_per_day),
      (''2024-01-09'', 19731 * ns_per_day)]"

definition sample_parser :: parser where
  "sample_parser vs = Inr (\<lambda>i. case vs ! i of Str s \<Rightarrow> map_of sample_dates s | _ \<Rightarrow> None)"

definition sample_repr :: "cell \<Rightarrow> string" where
  "sample_repr c = ''?''"

definition sample_leads :: dataframe where
  "sample_leads =
     \<lparr>index = [0, 1, 2, 3, 4, 5],
      cols =
        [(''Email '', [Str ''a@x.com'', Str '' a@x.com '', Str ''bad-email'', Str ''c@x.com'',
                       Str ''A@x.com'', NaN]),
         (''name'', [Str ''Ann'', Str ''Ann B'', Str ''Bob'', NaN, Str ''Al'', Str ''Dan'']),
         ('' created_at'', [Str ''2024-01-01'', Str ''2024-01-08'', Str ''2024-01-02'', NaN,
                            Str ''2024-01-07 10:00'', Str ''2024-01-09'']),
         (''email'', [Str ''x1'', Str ''x2'', Str ''x3'', Str ''x4'', Str ''x5'', Str ''x6'']),
         (''Date'', [Str ''2024-01-09'', NaN, NaN, Str ''2024-01-09'', NaN, NaN])]\<rparr>"


text \<open>A table without a date-like column, and one without an email column.\<close>

definition undated_leads :: dataframe where
  "undated_leads =
     \<lparr>index = [0, 1],
      cols = [(''email'', [Str ''a@b.co'', Str ''c@d.org'']), (''name'', [Str ''Ann'', NaN])]\<rparr>"

definition undated_clean :: dataframe where
  "undated_clean =
     \<lparr>index = [0, 1],
      cols = [(''email'', [Str ''a@b.co'', Str ''c@d.org'']), (''name'', [Str ''Ann'', NaN]),
              (''date'', [NaT, NaT]), (''lead_day'', [NaT, NaT]), (''lead_week'', [NaT, NaT])]\<rparr>"

definition no_email_leads :: dataframe where
  "no_email_leads =
     \<lparr>index = [0], cols = [(''e-mail'', [Str ''a@b.co'']), (''date'', [Str ''2024-01-01''])]\<rparr>"

text \<open>The valid rows of the sample table, as they reach \<open>drop_duplicates\<close> in line 78.\<close>

definition sample_valid :: dataframe where
  "sample_valid =
     \<lparr>index = [0, 1, 3, 4],
      cols =
        [(''Email'', [Str ''a@x.com'', Str ''a@x.com'', Str ''c@x.com'', Str ''A@x.com'']),
         (''name'', [Str ''Ann'', Str ''Ann B'', NaN, Str ''Al'']),
         (''created_at'', [Str ''2024-01-01'', Str ''2024-01-08'', NaN, Str ''2024-01-07 10:00'']),
         (''email'', [Str ''x1'', Str ''x2'', Str ''x4'', Str ''x5'']),
         (''Date'', [Str ''2024-01-09'', NaN, Str ''2024-01-09'', NaN]),
         (''__valid_email'', [Bool True, Bool True, Bool True, Bool True])]\<rparr>"


text \<open>
  A table with a header and no record; a table whose three emails are all invalid, and the
  clean table that \<open>clean_leads\<close> makes of it, which has no record; and a table with
  two email columns whose labels differ in a leading blank only.
\<close>

definition empty_leads :: dataframe where
  "empty_leads = \<lparr>index = [], cols = [(''email'', []), (''name'', [])]\<rparr>"

definition invalid_leads :: dataframe where
  "invalid_leads =
     \<lparr>index = [0, 1, 2],
      cols = [(''email'', [Str ''bad-email'', NaN, Str ''a@b'']),
              (''name'', [Str ''Bob'', Str ''Dan'', Str ''Eve''])]\<rparr>"

definition invalid_clean :: dataframe where
  "invalid_clean =
     \<lparr>index = [],
      cols = [(''email'', []), (''name'', []), (''date'', []), (''lead_day'', []),
              (''lead_week'', [])]\<rparr>"

definition collide_leads :: dataframe where
  "collide_leads =
     \<lparr>index = [0, 1],
      cols = [(''email'', [Str ''a@b.co'', Str ''c@d.org'']),
              ('' email'', [Str ''x@y.com'', NaN])]\<rparr>"


section \<open>Trimming\<close>

lemma strip_last: "strip e \<noteq> [] \<Longrightarrow> \<not> is_space (last (strip e))"
proof -
  assume ne: "strip e \<noteq> []"
  let ?zs = "dropWhile is_space (rev (dropWhile is_space e))"
  from ne have zs: "?zs \<noteq> []" by (simp add: strip_def)
  then have "\<not> is_space (hd ?zs)" by (rule hd_dropWhile)
  moreover have "last (strip e) = hd ?zs" using zs by (simp add: strip_def last_rev)
  ultimately show ?thesis by simp
qed

lemma strip_hd: "strip e \<noteq> [] \<Longrightarrow> \<not> is_space (hd (strip e))"
proof -
  assume ne: "strip e \<noteq> []"
  let ?a = "dropWhile is_space e"
  let ?b = "dropWhile is_space (rev ?a)"
  from ne have b: "?b \<noteq> []" by (simp add: strip_def)
  have a: "?a \<noteq> []"
  proof
    assume "?a = []"
    then have "?b = []" by (simp only: rev.simps(1) dropWhile.simps(1))
    with b show False by contradiction
  qed
  have "rev ?a = takeWhile is_space (rev ?a) @ ?b" by simp
  then have "?a = rev ?b @ rev (takeWhile is_space (rev ?a))"
    by (metis rev_append rev_rev_ident)
  with b have "hd ?a = hd (rev ?b)" by (metis hd_append2 rev_is_Nil_conv)
  moreover from a have "\<not> is_space (hd ?a)" by (rule hd_dropWhile)
  ultimately show ?thesis by (simp add: strip_def)
qed

lemma dropWhile_no_head: "xs = [] \<or> \<not> P (hd xs) \<Longrightarrow> dropWhile P xs = xs"
  by (cases xs) auto

lemma strip_fixed:
  assumes "s = [] \<or> (\<not> is_space (hd s) \<and> \<not> is_space (last s))"
  shows "strip s = s"
proof -
  from assms have 1: "dropWhile is_space s = s" by (intro dropWhile_no_head) auto
  from assms have "rev s = [] \<or> \<not> is_space (hd (rev s))" by (auto simp: hd_rev)
  then have 2: "dropWhile is_space (rev s) = rev s" by (rule dropWhile_no_head)
  show ?thesis by (simp add: strip_def 1 2)
qed

lemma strip_idem: "strip (strip e) = strip e"
  by (rule strip_fixed) (use strip_hd strip_last in blast)

section \<open>The pattern matcher and the specification's pattern\<close>

lemma local_class_chars: "in_class local_class c = (c \<in> set (spec_alnum @ ''_.+-''))"
  by (cases c) (simp add: in_class_def local_class_def alnum_def in_range_def spec_alnum_def)

lemma domain_class_chars: "in_class domain_class c = (c \<in> set (spec_alnum @ ''-''))"
  by (cases c) (simp add: in_class_def domain_class_def alnum_def in_range_def spec_alnum_def)

lemma tld_class_chars: "in_class tld_class c = (c \<in> set (spec_alnum @ ''-.''))"
  by (cases c) (simp add: in_class_def tld_class_def alnum_def in_range_def spec_alnum_def)

lemma re_run_PlusClass:
  "re_run b (PlusClass cls # ps) s =
     (\<exists>u v. s = u @ v \<and> u \<noteq> [] \<and> (\<forall>c \<in> set u. in_class cls c) \<and> re_run False ps v)"
proof (induction s arbitrary: b)
  case Nil
  show ?case by simp
next
  case (Cons x xs)
  show ?case (is "?L = ?R")
  proof
    assume L: ?L
    then have x: "in_class cls x" by simp
    from L have "re_run False (PlusClass cls # ps) xs \<or> re_run False ps xs" by simp
    then show ?R
    proof
      assume "re_run False (PlusClass cls # ps) xs"
      then obtain u v where "xs = u @ v" "u \<noteq> []" "\<forall>c \<in> set u. in_class cls c" "re_run False ps v"
        using Cons.IH by blast
      with x have "x # xs = (x # u) @ v \<and> x # u \<noteq> []
          \<and> (\<forall>c \<in> set (x # u). in_class cls c) \<and> re_run False ps v"
        by simp
      then show ?R by blast
    next
      assume "re_run False ps xs"
      with x have "x # xs = [x] @ xs \<and> [x] \<noteq> []
          \<and> (\<forall>c \<in> set [x]. in_class cls c) \<and> re_run False ps xs"
        by simp
      then show ?R by blast
    qed
  next
    assume ?R
    then obtain u v where uv: "x # xs = u @ v" "u \<noteq> []" "\<forall>c \<in> set u. in_class cls c"
        "re_run False ps v"
      by blast
    then obtain u' where u: "u = x # u'" "xs = u' @ v"
      by (cases u) auto
    show ?L
    proof (cases "u' = []")
      case True
      with u uv show ?thesis by simp
    next
      case False
      with u uv have "re_run False (PlusClass cls # ps) xs"
        using Cons.IH [of False] by auto
      with u uv show ?thesis by simp
    qed
  qed
qed

lemma re_run_Lit: "re_run b (Lit c # ps) s = (\<exists>v. s = c # v \<and> re_run False ps v)"
  by (cases s) auto

lemma re_match_EMAIL_REGEX:
  "re_match EMAIL_REGEX s =
     (\<exists>l d t v. s = l @ CHR ''@'' # d @ CHR ''.'' # t @ v
        \<and> l \<noteq> [] \<and> (\<forall>c \<in> set l. in_class local_class c)
        \<and> d \<noteq> [] \<and> (\<forall>c \<in> set d. in_class domain_class c)
        \<and> t \<noteq> [] \<and> (\<forall>c \<in> set t. in_class tld_class c)
        \<and> (v = [] \<or> v = [CHR 0x0A]))"
  unfolding re_match_def EMAIL_REGEX_def
  apply (simp add: re_run_PlusClass re_run_Lit)
  apply (rule iffI)
   apply (elim exE conjE)
   apply simp
   apply blast
  apply (elim exE conjE)
  apply simp
  apply blast
  done

lemma valid_email_Str:
  "valid_email R (Str e) = (strip e \<noteq> [] \<and> spec_email_pattern (strip e))"
proof -
  have nl: "is_space (CHR 0x0A)" by (simp add: is_space_def)
  have "re_match EMAIL_REGEX (strip e) = spec_email_pattern (strip e)" (is "?L = ?R")
  proof
    assume ?L
    then obtain l d t v where s: "strip e = l @ CHR ''@'' # d @ CHR ''.'' # t @ v"
      and l: "l \<noteq> []" "\<forall>c \<in> set l. in_class local_class c"
      and d: "d \<noteq> []" "\<forall>c \<in> set d. in_class domain_class c"
      and t: "t \<noteq> []" "\<forall>c \<in> set t. in_class tld_class c"
      and v: "v = [] \<or> v = [CHR 0x0A]"
      unfolding re_match_EMAIL_REGEX by blast
    have "v = []"
    proof (rule ccontr)
      assume "v \<noteq> []"
      with v have "v = [CHR 0x0A]" by simp
      with s have "last (strip e) = CHR 0x0A" by simp
      moreover from s have "strip e \<noteq> []" by simp
      ultimately show False using strip_last [of e] nl by simp
    qed
    from l d t have "set l \<subseteq> set (spec_alnum @ ''_.+-'')" "set d \<subseteq> set (spec_alnum @ ''-'')"
        "set t \<subseteq> set (spec_alnum @ ''-.'')"
      unfolding local_class_chars domain_class_chars tld_class_chars subset_eq by blast+
    moreover from s \<open>v = []\<close> have "strip e = l @ ''@'' @ d @ ''.'' @ t" by simp
    ultimately show ?R
      unfolding spec_email_pattern_def using l(1) d(1) t(1) by blast
  next
    assume ?R
    then obtain l d t where "strip e = l @ ''@'' @ d @ ''.'' @ t"
        "l \<noteq> []" "set l \<subseteq> set (spec_alnum @ ''_.+-'')"
        "d \<noteq> []" "set d \<subseteq> set (spec_alnum @ ''-'')"
        "t \<noteq> []" "set t \<subseteq> set (spec_alnum @ ''-.'')"
      unfolding spec_email_pattern_def by blast
    then have "strip e = l @ CHR ''@'' # d @ CHR ''.'' # t @ []
        \<and> l \<noteq> [] \<and> (\<forall>c \<in> set l. in_class local_class c)
        \<and> d \<noteq> [] \<and> (\<forall>c \<in> set d. in_class domain_class c)
        \<and> t \<noteq> [] \<and> (\<forall>c \<in> set t. in_class tld_class c)"
      unfolding local_class_chars domain_class_chars tld_class_chars subset_eq by simp
    then show ?L unfolding re_match_EMAIL_REGEX by blast
  qed
  moreover have "spec_email_pattern s \<Longrightarrow> s \<noteq> []" for s
    unfolding spec_email_pattern_def by auto
  ultimately show ?thesis
    unfolding valid_email_def by (simp only: isna.simps py_str.simps if_False) blast
qed

lemmas email_eval =
  valid_email_def re_match_def EMAIL_REGEX_def in_class_def in_range_def alnum_def
  local_class_def domain_class_def tld_class_def strip_def is_space_def

text \<open>
  Claim C2. A cell that holds a string is a valid email exactly when the string, after
  trimming, is not empty and has the form \<open>local@domain.tld\<close> of the specification, the whole
  trimmed string taking part. The same holds for the value the pipeline tests, the trimmed
  text of any cell \<open>c\<close> of the email column. A missing email is invalid, as a cell and as the
  text \<open>nan\<close> that the pipeline makes of it, and so is an empty one. \<open>a@b.co\<close> is valid, \<open>a@b\<close>
  and \<open>@b.co\<close> are invalid, and \<open>a@b.co\<close> between blanks is valid.
\<close>

theorem C2_valid_email_is_spec_pattern:
  "valid_email R (Str e) = (strip e \<noteq> [] \<and> spec_email_pattern (strip e))
   \<and> valid_email R (Str (strip (py_str R c)))
       = (strip (py_str R c) \<noteq> [] \<and> spec_email_pattern (strip (py_str R c)))
   \<and> \<not> valid_email R NaN
   \<and> \<not> valid_email R (Str (strip (py_str R NaN)))
   \<and> \<not> valid_email R (Str '''')
   \<and> valid_email R (Str ''a@b.co'')
   \<and> \<not> valid_email R (Str ''a@b'')
   \<and> \<not> valid_email R (Str ''@b.co'')
   \<and> valid_email R (Str '' a@b.co '')"
proof -
  have 1: "valid_email R (Str e) = (strip e \<noteq> [] \<and> spec_email_pattern (strip e))"
    by (rule valid_email_Str)
  have 2: "valid_email R (Str (strip (py_str R c)))
       = (strip (py_str R c) \<noteq> [] \<and> spec_email_pattern (strip (py_str R c)))"
    by (simp only: valid_email_Str strip_idem)
  have 3: "\<not> valid_email R NaN" by (simp add: valid_email_def)
  have 4: "\<not> valid_email R (Str (strip (py_str R NaN)))" by (simp add: email_eval)
  have 5: "\<not> valid_email R (Str '''')" by (simp add: email_eval)
  have 6: "valid_email R (Str ''a@b.co'')" by (simp add: email_eval)
  have 7: "\<not> valid_email R (Str ''a@b'')" by (simp add: email_eval)
  have 8: "\<not> valid_email R (Str ''@b.co'')" by (simp add: email_eval)
  have 9: "valid_email R (Str '' a@b.co '')" by (simp add: email_eval)
  from 1 2 3 4 5 6 7 8 9 show ?thesis by blast
qed

theorem C2_witness:
  "valid_email (\<lambda>c. []) (Str ''  jo.e+x_1@mail-2.example.org'')
   \<and> spec_email_pattern ''jo.e+x_1@mail-2.example.org''"
proof -
  have v: "valid_email (\<lambda>c. []) (Str ''  jo.e+x_1@mail-2.example.org'')"
    by (simp add: email_eval)
  have s: "strip ''  jo.e+x_1@mail-2.example.org'' = ''jo.e+x_1@mail-2.example.org''"
    by (simp add: strip_def is_space_def)
  from C2_valid_email_is_spec_pattern [of "\<lambda>c. []" "''  jo.e+x_1@mail-2.example.org''" NaN] v s
  show ?thesis by simp
qed

section \<open>Row selection and duplicates\<close>

lemma bindE_Inr: "(bindE m f = Inr y) = (\<exists>x. m = Inr x \<and> f x = Inr y)"
  by (cases m) (simp_all add: bindE_def)

lemma select_Nil [simp]: "select [] xs = []" "select m [] = []"
  by (simp_all add: select_def)

lemma select_Cons [simp]:
  "select (b # m) (x # xs) = (if b then x # select m xs else select m xs)"
  by (simp add: select_def)

lemma select_map: "select m (map f xs) = map f (select m xs)"
proof (induction m arbitrary: xs)
  case Nil
  show ?case by simp
next
  case (Cons b m)
  then show ?case by (cases xs) simp_all
qed

lemma length_select:
  "length m = length xs \<Longrightarrow> length (select m xs) = length (filter (\<lambda>b. b) m)"
  by (induction m xs rule: list_induct2) simp_all

lemma length_select_le: "length (select m xs) \<le> length xs"
proof (induction m arbitrary: xs)
  case Nil
  show ?case by simp
next
  case (Cons b m)
  then show ?case by (cases xs) (auto intro: le_SucI)
qed

lemma select_all_True:
  "\<forall>b \<in> set m. b \<Longrightarrow> length xs \<le> length m \<Longrightarrow> select m xs = xs"
proof (induction xs arbitrary: m)
  case Nil
  show ?case by simp
next
  case (Cons x xs)
  show ?case
  proof (cases m)
    case Nil
    with Cons.prems show ?thesis by simp
  next
    case (Cons b m')
    with Cons.prems have "select m' xs = xs" by (intro Cons.IH) auto
    with Cons Cons.prems show ?thesis by simp
  qed
qed

lemma select_eq_nths:
  "length m = length xs \<Longrightarrow> select m xs = nths xs {i. i < length m \<and> m ! i}"
proof (induction m xs rule: list_induct2)
  case Nil
  show ?case by simp
next
  case (Cons b m x xs)
  have "{j. Suc j \<in> {i. i < length (b # m) \<and> (b # m) ! i}} = {i. i < length m \<and> m ! i}"
    by auto
  with Cons show ?case by (simp add: nths_Cons)
qed




lemma select_pred:
  "length m = length xs \<Longrightarrow> \<forall>i < length xs. m ! i \<longrightarrow> Q (xs ! i) \<Longrightarrow> \<forall>x \<in> set (select m xs). Q x"
  by (auto simp: select_eq_nths set_nths)

lemma length_duplicated [simp]: "length (duplicated seen xs) = length xs"
  by (induction xs arbitrary: seen) simp_all


lemma keep_first_set:
  "set (select (map Not (duplicated seen xs)) xs) = set xs - set seen"
  by (induction xs arbitrary: seen) auto

lemma keep_first_distinct:
  "distinct (select (map Not (duplicated seen xs)) xs)"
  by (induction xs arbitrary: seen) (auto simp: keep_first_set)

lemma duplicated_distinct:
  "distinct xs \<Longrightarrow> set xs \<inter> set seen = {} \<Longrightarrow> \<forall>b \<in> set (duplicated seen xs). \<not> b"
proof (induction xs arbitrary: seen)
  case Nil
  show ?case by simp
next
  case (Cons x xs)
  from Cons.prems have "set xs \<inter> set (x # seen) = {}" "distinct xs" by auto
  then have "\<forall>b \<in> set (duplicated (x # seen) xs). \<not> b" by (intro Cons.IH)
  moreover from Cons.prems have "x \<notin> set seen" by auto
  ultimately show ?case by simp
qed

section \<open>Frames\<close>

lemma labelled_Nil_iff: "(labelled df c = []) = (c \<notin> set (columns df))"
  by (auto simp: labelled_def columns_def filter_empty_conv)

lemma getitem_Series: "(getitem df c = Inr (Series vs)) = (labelled df c = [vs])"
  by (simp add: getitem_def split: list.splits)

lemma getitem_Inl: "(getitem df c = Inl e) = (c \<notin> set (columns df) \<and> e = KeyError c)"
  by (auto simp: getitem_def labelled_Nil_iff [symmetric] split: list.splits)

lemma getitem_Series_columns: "getitem df c = Inr (Series vs) \<Longrightarrow> c \<in> set (columns df)"
  using labelled_Nil_iff [of df c] by (simp add: getitem_Series)

lemma distinct_labelled: "distinct (map fst al) \<Longrightarrow> length (filter (\<lambda>cv. fst cv = c) al) \<le> 1"
proof (induction al)
  case Nil
  show ?case by simp
next
  case (Cons a al)
  show ?case
  proof (cases "fst a = c")
    case True
    with Cons.prems have "c \<notin> fst ` set al" by simp
    then have "\<forall>cv \<in> set al. fst cv \<noteq> c" by blast
    then have "filter (\<lambda>cv. fst cv = c) al = []" by (simp add: filter_empty_conv)
    with True show ?thesis by simp
  next
    case False
    with Cons show ?thesis by simp
  qed
qed

lemma getitem_in_columns:
  assumes "distinct (columns df)"
  shows "(\<exists>vs. getitem df c = Inr (Series vs)) = (c \<in> set (columns df))"
proof
  assume "\<exists>vs. getitem df c = Inr (Series vs)"
  then show "c \<in> set (columns df)" using getitem_Series_columns by blast
next
  assume "c \<in> set (columns df)"
  then have "labelled df c \<noteq> []" by (simp add: labelled_Nil_iff)
  moreover have "length (labelled df c) \<le> 1"
    using distinct_labelled [of "cols df" c] assms by (simp add: labelled_def columns_def)
  ultimately obtain vs where "labelled df c = [vs]"
    by (cases "labelled df c") auto
  then show "\<exists>vs. getitem df c = Inr (Series vs)" by (simp add: getitem_Series)
qed

lemma index_setitem [simp]: "index (setitem df c vs) = index df"
  by (simp add: setitem_def)

lemma len_setitem [simp]: "len (setitem df c vs) = len df"
  by (simp add: len_def)

lemma columns_setitem:
  "columns (setitem df c vs) = (if c \<in> set (columns df) then columns df else columns df @ [c])"
proof -
  have "map fst (map (\<lambda>cv. if fst cv = c then (c, vs) else cv) al) = map fst al" for al
    by (induction al) auto
  then show ?thesis by (simp add: columns_def setitem_def)
qed

lemma distinct_columns_setitem [simp]:
  "distinct (columns (setitem df c vs)) = distinct (columns df)"
  by (simp add: columns_setitem)

lemma labelled_setitem:
  "labelled (setitem df c vs) c'
     = (if c' = c then replicate (max 1 (length (labelled df c))) vs else labelled df c')"
proof -
  have 1: "map snd (filter (\<lambda>cv. fst cv = c') (map (\<lambda>cv. if fst cv = c then (c, vs) else cv) al))
      = (if c' = c then replicate (length (filter (\<lambda>cv. fst cv = c) al)) vs
         else map snd (filter (\<lambda>cv. fst cv = c') al))" for al
    by (induction al) auto
  show ?thesis
  proof (cases "c \<in> set (columns df)")
    case True
    then have "labelled df c \<noteq> []" by (simp add: labelled_Nil_iff)
    then have "max 1 (length (labelled df c)) = length (labelled df c)"
      by (cases "labelled df c") simp_all
    with True show ?thesis by (simp add: labelled_def setitem_def 1)
  next
    case False
    then have "labelled df c = []" by (simp add: labelled_Nil_iff)
    with False show ?thesis by (auto simp: labelled_def setitem_def)
  qed
qed

lemma getitem_setitem_other: "c' \<noteq> c \<Longrightarrow> getitem (setitem df c vs) c' = getitem df c'"
  by (simp add: getitem_def labelled_setitem)

lemma getitem_setitem:
  assumes "distinct (columns df)"
  shows "getitem (setitem df c vs) c' = (if c' = c then Inr (Series vs) else getitem df c')"
proof -
  have "length (labelled df c) \<le> 1"
    using distinct_labelled [of "cols df" c] assms by (simp add: labelled_def columns_def)
  then have "replicate (max 1 (length (labelled df c))) vs = [vs]"
    by (cases "labelled df c") simp_all
  then show ?thesis by (simp add: getitem_def labelled_setitem)
qed

lemma setitem_same: "getitem df c = Inr (Series vs) \<Longrightarrow> setitem df c vs = df"
proof -
  assume g: "getitem df c = Inr (Series vs)"
  then have l: "labelled df c = [vs]" by (simp add: getitem_Series)
  have "map (\<lambda>cv. if fst cv = c then (c, vs) else cv) (cols df) = cols df"
  proof (intro map_idI)
    fix cv assume cv: "cv \<in> set (cols df)"
    show "(if fst cv = c then (c, vs) else cv) = cv"
    proof (cases "fst cv = c")
      case True
      with cv have "snd cv \<in> set (labelled df c)" by (auto simp: labelled_def)
      with l have "snd cv = vs" by simp
      with True show ?thesis by (cases cv) simp
    next
      case False
      then show ?thesis by simp
    qed
  qed
  moreover have "c \<in> set (columns df)" using g by (rule getitem_Series_columns)
  ultimately show ?thesis by (simp add: setitem_def)
qed

lemma labelled_take_mask: "labelled (take_mask m df) c = map (select m) (labelled df c)"
proof -
  have "map snd (filter (\<lambda>cv. fst cv = c) (map (\<lambda>cv. (fst cv, select m (snd cv))) al))
      = map (select m) (map snd (filter (\<lambda>cv. fst cv = c) al))" for al
    by (induction al) auto
  then show ?thesis by (simp add: labelled_def take_mask_def)
qed

lemma getitem_take_mask:
  "getitem (take_mask m df) c =
     (case getitem df c of
        Inl e \<Rightarrow> Inl e
      | Inr (Series vs) \<Rightarrow> Inr (Series (select m vs))
      | Inr (Frame vss) \<Rightarrow> Inr (Frame (map (select m) vss)))"
  by (simp add: getitem_def labelled_take_mask split: list.splits)

lemma index_take_mask [simp]: "index (take_mask m df) = select m (index df)"
  by (simp add: take_mask_def)

lemma columns_take_mask [simp]: "columns (take_mask m df) = columns df"
  by (simp add: take_mask_def columns_def comp_def)

lemma columns_rename_strip: "columns (rename_strip df) = map strip (columns df)"
  by (simp add: rename_strip_def columns_def comp_def)

lemma index_rename_strip [simp]: "index (rename_strip df) = index df"
  by (simp add: rename_strip_def)

lemma cols_ok_iff: "cols_ok df = (\<forall>cv \<in> set (cols df). length (snd cv) = len df)"
  by (simp add: cols_ok_def list_all_iff)

lemma wf_cols_ok: "wf_frame df \<Longrightarrow> cols_ok df"
  by (simp add: wf_frame_def)

lemma wf_distinct: "wf_frame df \<Longrightarrow> distinct (columns (rename_strip df))"
  by (simp add: wf_frame_def columns_rename_strip)

lemma cols_ok_getitem: "cols_ok df \<Longrightarrow> getitem df c = Inr (Series vs) \<Longrightarrow> length vs = len df"
proof -
  assume ok: "cols_ok df" and "getitem df c = Inr (Series vs)"
  then have "vs \<in> set (labelled df c)" by (simp add: getitem_Series)
  then obtain cv where "cv \<in> set (cols df)" "snd cv = vs" by (auto simp: labelled_def)
  with ok show ?thesis by (auto simp: cols_ok_iff)
qed

lemma cols_ok_rename_strip: "cols_ok df \<Longrightarrow> cols_ok (rename_strip df)"
  by (auto simp: cols_ok_iff rename_strip_def len_def)

lemma cols_ok_setitem: "cols_ok df \<Longrightarrow> length vs = len df \<Longrightarrow> cols_ok (setitem df c vs)"
  by (auto simp: cols_ok_iff setitem_def len_def)

lemma cols_ok_take_mask:
  "cols_ok df \<Longrightarrow> length m = len df \<Longrightarrow> cols_ok (take_mask m df)"
  by (auto simp: cols_ok_iff take_mask_def len_def length_select)

lemma take_mask_all_True:
  assumes "cols_ok df" "\<forall>b \<in> set m. b" "len df \<le> length m"
  shows "take_mask m df = df"
proof -
  have "map (\<lambda>cv. (fst cv, select m (snd cv))) (cols df) = map (\<lambda>cv. cv) (cols df)"
    using assms by (intro map_cong refl) (auto simp: cols_ok_iff select_all_True)
  moreover have "select m (index df) = index df"
    using assms by (simp add: select_all_True len_def)
  ultimately show ?thesis by (simp add: take_mask_def)
qed

lemma take_mask_no_rows:
  assumes "cols_ok df" "len df = 0"
  shows "take_mask m df = df"
proof -
  have "map (\<lambda>cv. (fst cv, select m (snd cv))) (cols df) = map (\<lambda>cv. cv) (cols df)"
    using assms by (intro map_cong refl) (auto simp: cols_ok_iff)
  moreover have "select m (index df) = index df"
    using assms by (simp add: len_def)
  ultimately show ?thesis by (simp add: take_mask_def)
qed

lemma transpose_single: "transpose [ks] = map (\<lambda>k. [k]) ks"
  by (induction ks) simp_all

section \<open>The stages of \<open>clean_leads\<close>\<close>

lemma length_lower [simp]: "length (lower s) = length s"
  by (simp add: lower_def)

lemmas name_eval = is_email_name_def is_date_name_def lower_def lower_char_def

lemma email_name_not_reserved:
  assumes "is_email_name c"
  shows "c \<noteq> ''__valid_email''" "c \<noteq> ''lead_day''" "c \<noteq> ''lead_week''" "c \<noteq> ''date''"
    "\<not> is_date_name c"
proof -
  from assms have l: "lower c = ''email''" by (simp add: is_email_name_def)
  then have "length (lower c) = 5" by simp
  then have "length c = 5" by simp
  then show "c \<noteq> ''__valid_email''" "c \<noteq> ''lead_day''" "c \<noteq> ''lead_week''" "c \<noteq> ''date''"
    by auto
  from l show "\<not> is_date_name c" by (simp add: is_date_name_def)
qed

lemma date_name_not_reserved:
  assumes "is_date_name c"
  shows "c \<noteq> ''__valid_email''" "c \<noteq> ''lead_day''" "c \<noteq> ''lead_week''"
proof -
  have "\<not> is_date_name ''__valid_email''" "\<not> is_date_name ''lead_day''" "\<not> is_date_name ''lead_week''"
    by (simp_all add: name_eval)
  with assms show "c \<noteq> ''__valid_email''" "c \<noteq> ''lead_day''" "c \<noteq> ''lead_week''"
    by auto
qed

lemma date_is_date_name: "is_date_name ''date''"
  by (simp add: name_eval)

lemma reserved_not_email:
  "\<not> is_email_name ''__valid_email''" "\<not> is_email_name ''lead_day''"
  "\<not> is_email_name ''lead_week''" "\<not> is_email_name ''date''"
  by (simp_all add: name_eval)

lemma reserved_strip:
  "strip ''date'' = ''date''" "strip ''lead_day'' = ''lead_day''" "strip ''lead_week'' = ''lead_week''"
  "strip ''__valid_email'' = ''__valid_email''"
  by (simp_all add: strip_def is_space_def)

lemma find_append_Some: "find Q xs = Some c \<Longrightarrow> find Q (xs @ ys) = Some c"
  by (induction xs) (auto split: if_splits)

lemma find_append_None: "find Q xs = None \<Longrightarrow> find Q (xs @ ys) = find Q ys"
  by (induction xs) (auto split: if_splits)

lemma find_filter_Some: "find Q xs = Some c \<Longrightarrow> S c \<Longrightarrow> find Q (filter S xs) = Some c"
  by (induction xs) (auto split: if_splits)

lemma find_Some_mem: "find Q xs = Some c \<Longrightarrow> c \<in> set xs \<and> Q c"
  by (induction xs) (auto split: if_splits)

lemma columns_drop:
  "columns (df\<lparr>cols := filter (\<lambda>cv. fst cv \<noteq> k) (cols df)\<rparr>) = filter (\<lambda>x. x \<noteq> k) (columns df)"
  by (simp add: columns_def filter_map comp_def)

lemma dt_Inr: "(dt sel = Inr vs) = (sel = Series vs)"
  by (cases sel) (auto simp: dt_def)

lemma trim_emails_Inr:
  "(trim_emails R df ec = Inr df2) =
     (\<exists>ev. getitem df ec = Inr (Series ev) \<and> df2 = setitem df ec (map (\<lambda>e. Str (strip (py_str R e))) ev))"
proof (cases "getitem df ec")
  case (Inl e)
  then show ?thesis by (simp add: trim_emails_def bindE_def)
next
  case (Inr sel)
  then show ?thesis by (cases sel) (auto simp: trim_emails_def bindE_def)
qed

lemma mark_valid_Inr:
  "(mark_valid R df ec = Inr df3) =
     (\<exists>ev. getitem df ec = Inr (Series ev)
        \<and> df3 = setitem df ''__valid_email'' (map (\<lambda>e. Bool (valid_email R e)) ev))"
proof (cases "getitem df ec")
  case (Inl e)
  then show ?thesis by (simp add: mark_valid_def bindE_def)
next
  case (Inr sel)
  then show ?thesis by (cases sel) (auto simp: mark_valid_def bindE_def)
qed

lemma keep_valid_Inr:
  "(keep_valid df = Inr V) =
     (\<exists>mk. getitem df ''__valid_email'' = Inr (Series mk)
        \<and> V = (if mk = [] then df\<lparr>cols := []\<rparr> else take_mask (map (\<lambda>b. b = Bool True) mk) df))"
proof (cases "getitem df ''__valid_email''")
  case (Inl e)
  then show ?thesis by (simp add: keep_valid_def bindE_def)
next
  case (Inr sel)
  then show ?thesis by (cases sel) (auto simp: keep_valid_def bindE_def)
qed

lemma duplicated_map_inj:
  "inj f \<Longrightarrow> duplicated (map f seen) (map f xs) = duplicated seen xs"
proof (induction xs arbitrary: seen)
  case Nil
  show ?case by simp
next
  case (Cons x xs)
  from Cons.IH [OF Cons.prems, of "x # seen"] Cons.prems show ?case
    by (auto simp: inj_image_mem_iff)
qed

lemma drop_duplicates_empty: "frame_empty df \<Longrightarrow> drop_duplicates df c = Inr df"
  by (simp add: drop_duplicates_def)

lemma drop_duplicates_Series:
  assumes "cols_ok df" "getitem df c = Inr (Series ks)"
  shows "drop_duplicates df c = Inr (take_mask (map Not (duplicated [] ks)) df)"
proof (cases "frame_empty df")
  case True
  from assms(2) have "c \<in> set (columns df)" by (rule getitem_Series_columns)
  then have "cols df \<noteq> []" by (auto simp: columns_def)
  with True have "len df = 0" by (simp add: frame_empty_def)
  with assms(1) have "take_mask (map Not (duplicated [] ks)) df = df" by (rule take_mask_no_rows)
  with True show ?thesis by (simp add: drop_duplicates_def)
next
  case False
  from assms(2) have l: "labelled df c = [ks]" by (simp add: getitem_Series)
  have "duplicated (map (\<lambda>k. [k]) []) (map (\<lambda>k. [k]) ks) = duplicated [] ks"
    by (rule duplicated_map_inj) (simp add: inj_def)
  then have "duplicated [] (transpose [ks]) = duplicated [] ks" by (simp add: transpose_single)
  with False l show ?thesis by (simp add: drop_duplicates_def)
qed

lemma to_datetime_Inr:
  "(to_datetime P sel = Inr D) =
     (\<exists>vs. sel = Series vs
        \<and> (if list_all is_datetime vs then D = vs
           else \<exists>ts. P vs = Inr ts
                  \<and> D = map (\<lambda>i. case ts i of None \<Rightarrow> NaT | Some t \<Rightarrow> Ts t) [0..<length vs]))"
  by (cases sel) (auto simp: to_datetime_def bindE_Inr)

lemma to_datetime_all: "to_datetime P sel = Inr D \<Longrightarrow> list_all is_datetime D"
proof -
  have "list_all is_datetime (map (\<lambda>i. case ts i of None \<Rightarrow> NaT | Some t \<Rightarrow> Ts t) xs)"
    for ts :: "nat \<Rightarrow> int option" and xs
    by (induction xs) (auto split: option.splits)
  moreover assume "to_datetime P sel = Inr D"
  ultimately show ?thesis by (auto simp: to_datetime_Inr split: if_splits)
qed

lemma length_to_datetime: "to_datetime P (Series vs) = Inr D \<Longrightarrow> length D = length vs"
  by (auto simp: to_datetime_Inr split: if_splits)

lemma to_datetime_fixed: "list_all is_datetime vs \<Longrightarrow> to_datetime P (Series vs) = Inr vs"
  by (simp add: to_datetime_def)

lemma parse_dates_Inr:
  "(parse_dates P df V = Inr (X, dc)) =
     (case find is_date_name (columns df) of
        Some c \<Rightarrow> dc = c \<and> (\<exists>sel D. getitem V c = Inr sel \<and> to_datetime P sel = Inr D
                                \<and> X = setitem V c D)
      | None \<Rightarrow> dc = ''date'' \<and> X = setitem V ''date'' (replicate (len V) NaT))"
  by (auto simp: parse_dates_def bindE_Inr split: option.splits)

lemma add_helpers_Inr:
  "(add_helpers X dc = Inr Y) =
     (\<exists>dv dv'. getitem X dc = Inr (Series dv)
        \<and> getitem (setitem X ''lead_day'' (map dt_date dv)) dc = Inr (Series dv')
        \<and> Y = setitem (setitem X ''lead_day'' (map dt_date dv)) ''lead_week''
                 (map week_start (map to_period_W dv')))"
  by (auto simp: add_helpers_def bindE_Inr dt_Inr Let_def)

lemma drop_column_Inr:
  "(drop_column Y c = Inr Z)
     = (c \<in> set (columns Y) \<and> Z = Y\<lparr>cols := filter (\<lambda>cv. fst cv \<noteq> c) (cols Y)\<rparr>)"
  by (auto simp: drop_column_def)

lemma clean_leads_Inr:
  assumes "clean_leads P R df0 = Inr (out, ninv, ndup)"
  obtains ec df2 df3 V W X dc Y where
    "find is_email_name (columns (rename_strip df0)) = Some ec"
    "trim_emails R (rename_strip df0) ec = Inr df2"
    "mark_valid R df2 ec = Inr df3"
    "keep_valid df3 = Inr V"
    "ninv = int (len df3) - int (len V)"
    "drop_duplicates V ec = Inr W"
    "ndup = int (len V) - int (len W)"
    "parse_dates P df3 W = Inr (X, dc)"
    "add_helpers X dc = Inr Y"
    "drop_column Y ''__valid_email'' = Inr out"
  using assms unfolding clean_leads_def Let_def
  by (auto simp: bindE_Inr split: option.splits)

lemma cols_ok_delete: "cols_ok df \<Longrightarrow> cols_ok (df\<lparr>cols := filter (\<lambda>cv. fst cv \<noteq> c) (cols df)\<rparr>)"
  by (auto simp: cols_ok_iff len_def)

lemma getitem_delete:
  "getitem (df\<lparr>cols := filter (\<lambda>cv. fst cv \<noteq> k) (cols df)\<rparr>) c
     = (if c = k then Inl (KeyError c) else getitem df c)"
proof -
  have "filter (\<lambda>cv. fst cv = c) (filter (\<lambda>cv. fst cv \<noteq> k) al)
      = (if c = k then [] else filter (\<lambda>cv. fst cv = c) al)" for al :: "(string \<times> cell list) list"
    by (induction al) auto
  then show ?thesis by (simp add: getitem_def labelled_def)
qed

lemma getitem_rename_len:
  "cols_ok df \<Longrightarrow> getitem (rename_strip df) c = Inr (Series vs) \<Longrightarrow> length vs = len df"
  using cols_ok_getitem [OF cols_ok_rename_strip, of df c vs] by (simp add: len_def)

text \<open>
  A frame without columns does not get through the rest of \<open>clean_leads\<close>: when there is
  a date column line 88 does not find it, and otherwise line 99 does not find the marker
  column.
\<close>

lemma no_columns_fails:
  assumes "cols W = []" and "parse_dates P df W = Inr (X, dc)" and "add_helpers X dc = Inr Y"
  shows "''__valid_email'' \<notin> set (columns Y)"
proof (cases "find is_date_name (columns df)")
  case (Some c)
  from assms(1) have "getitem W c = Inl (KeyError c)" by (simp add: getitem_def labelled_def)
  with assms(2) Some show ?thesis by (simp add: parse_dates_Inr)
next
  case None
  with assms(2) have X: "X = setitem W ''date'' (replicate (len W) NaT)"
    by (simp add: parse_dates_Inr)
  from assms(1) have "columns W = []" by (simp add: columns_def)
  then have cX: "columns X = [''date'']" by (simp add: X columns_setitem)
  from assms(3) obtain a b where "Y = setitem (setitem X ''lead_day'' a) ''lead_week'' b"
    by (auto simp: add_helpers_Inr)
  then have "columns Y = [''date'', ''lead_day'', ''lead_week'']"
    by (simp add: columns_setitem cX)
  then show ?thesis by simp
qed

lemma clean_leads_facts:
  fixes P R df0 out ninv ndup ec ev
  defines "df1 \<equiv> rename_strip df0"
  defines "E \<equiv> map (\<lambda>e. Str (strip (py_str R e))) ev"
  defines "M \<equiv> map (valid_email R) E"
  defines "K \<equiv> map Not (duplicated [] (select M E))"
  assumes ok: "cols_ok df0" and dist: "distinct (columns df1)"
    and run: "clean_leads P R df0 = Inr (out, ninv, ndup)"
    and ec: "find is_email_name (columns df1) = Some ec"
    and ev: "getitem df1 ec = Inr (Series ev)"
  shows "index out = select K (select M (index df0))"
    and "getitem out ec = Inr (Series (select K (select M E)))"
    and "ninv = int (len df0) - int (length (select M E))"
    and "ndup = int (length (select M E)) - int (length (select K (select M E)))"
    and "len out = length (select K (select M E))"
    and "cols_ok out"
    and "''__valid_email'' \<notin> set (columns out)"
    and "\<forall>c \<in> set (columns out). strip c = c"
    and "find is_email_name (columns out) = Some ec"
    and "\<exists>dc D. (case find is_date_name (columns df1) of
                   Some c \<Rightarrow> dc = c \<and> (\<exists>dv. getitem df1 c = Inr (Series dv)
                                \<and> to_datetime P (Series (select K (select M dv))) = Inr D)
                 | None \<Rightarrow> dc = ''date'' \<and> D = replicate (len out) NaT)
           \<and> find is_date_name (columns out) = Some dc
           \<and> getitem out dc = Inr (Series D)
           \<and> getitem out ''lead_day'' = Inr (Series (map dt_date D))
           \<and> getitem out ''lead_week'' = Inr (Series (map week_start (map to_period_W D)))"
    and "\<forall>c vs. getitem df1 c = Inr (Series vs) \<and> c \<noteq> ec \<and> find is_date_name (columns df1) \<noteq> Some c
            \<and> c \<notin> {''__valid_email'', ''lead_day'', ''lead_week''}
          \<longrightarrow> getitem out c = Inr (Series (select K (select M vs)))"
    and "len df0 \<noteq> 0"
    and "distinct (columns out)"
proof -
  let ?mk = "''__valid_email''"
  from run obtain ec' df2 df3 V W X dc Y where st:
    "find is_email_name (columns (rename_strip df0)) = Some ec'"
    "trim_emails R (rename_strip df0) ec' = Inr df2"
    "mark_valid R df2 ec' = Inr df3"
    "keep_valid df3 = Inr V"
    "ninv = int (len df3) - int (len V)"
    "drop_duplicates V ec' = Inr W"
    "ndup = int (len V) - int (len W)"
    "parse_dates P df3 W = Inr (X, dc)"
    "add_helpers X dc = Inr Y"
    "drop_column Y ?mk = Inr out"
    by (rule clean_leads_Inr)
  from st(1) ec have [simp]: "ec' = ec" by (simp add: df1_def)
  have en: "is_email_name ec" "ec \<in> set (columns df1)"
    using find_Some_mem [OF ec] by simp_all
  note ne = email_name_not_reserved [OF en(1)]
  have ok1: "cols_ok df1" using ok by (simp add: df1_def cols_ok_rename_strip)
  have len1: "len df1 = len df0" by (simp add: df1_def len_def)
  have lev: "length ev = len df0" using cols_ok_getitem [OF ok1 ev] len1 by simp
  have lE: "length E = len df0" "length M = len df0" by (simp_all add: E_def M_def lev)
  \<comment> \<open>trimming and marking\<close>
  have df2: "df2 = setitem df1 ec E"
    using st(2) ev by (simp add: trim_emails_Inr df1_def E_def)
  have d2: "distinct (columns df2)" using dist by (simp add: df2)
  have g2: "getitem df2 ec = Inr (Series E)" by (simp add: df2 getitem_setitem dist)
  have df3: "df3 = setitem df2 ?mk (map Bool M)"
    using st(3) by (simp add: mark_valid_Inr g2 M_def comp_def)
  have d3: "distinct (columns df3)" using d2 by (simp add: df3)
  have g3: "getitem df3 ?mk = Inr (Series (map Bool M))" by (simp add: df3 getitem_setitem d2)
  have ok3: "cols_ok df3" "len df3 = len df0"
    using ok1 lE len1 by (simp_all add: df3 df2 cols_ok_setitem)
  have Vraw: "V = (if M = [] then df3\<lparr>cols := []\<rparr> else take_mask M df3)"
    using st(4) by (simp add: keep_valid_Inr g3 comp_def)
  \<comment> \<open>a table without rows does not get through\<close>
  have mkY: "?mk \<in> set (columns Y)" using st(10) by (simp add: drop_column_Inr)
  have Mne: "M \<noteq> []"
  proof
    assume "M = []"
    with Vraw have cV: "cols V = []" by simp
    then have "frame_empty V" by (simp add: frame_empty_def)
    with st(6) have "W = V" by (simp add: drop_duplicates_empty)
    with cV have "cols W = []" by simp
    from no_columns_fails [OF this st(8) st(9)] mkY show False by contradiction
  qed
  show nz: "len df0 \<noteq> 0"
  proof
    assume "len df0 = 0"
    with lE(2) have "M = []" by simp
    with Mne show False by contradiction
  qed
  have V: "V = take_mask M df3" using Vraw Mne by simp
  have okV: "cols_ok V" using ok3 lE by (simp add: V cols_ok_take_mask)
  have lenV: "len V = length (select M E)"
    using lE ok3 by (simp add: V len_def length_select)
  have g3e: "getitem df3 ec = Inr (Series E)"
    using ne g2 by (simp add: df3 getitem_setitem_other)
  have gVe: "getitem V ec = Inr (Series (select M E))"
    by (simp add: V getitem_take_mask g3e)
  have W: "W = take_mask K V"
    using st(6) drop_duplicates_Series [OF okV gVe] by (simp add: K_def)
  have lK: "length K = len V" by (simp add: K_def lenV)
  have okW: "cols_ok W" using okV lK by (simp add: W cols_ok_take_mask)
  have dW: "distinct (columns W)" using d3 by (simp add: W V)
  have lenW: "len W = length (select K (select M E))"
    using lK lenV by (simp add: W len_def length_select)
  have iW: "index W = select K (select M (index df0))"
    by (simp add: W V df3 df2 df1_def)
  have gW: "getitem W c = Inr (Series (select K (select M vs)))"
    if "getitem df1 c = Inr (Series vs)" "c \<noteq> ec" "c \<noteq> ?mk" for c vs
    using that by (simp add: W V getitem_take_mask df3 df2 getitem_setitem_other)
  have gWe: "getitem W ec = Inr (Series (select K (select M E)))"
    by (simp add: W getitem_take_mask gVe)
  have cW: "columns W = (if ?mk \<in> set (columns df1) then columns df1 else columns df1 @ [?mk])"
    using en by (simp add: W V df3 df2 columns_setitem)
  have c3: "columns df3 = columns W" by (simp add: W V)
  have fdW: "find is_date_name (columns W) = find is_date_name (columns df1)"
    by (cases "find is_date_name (columns df1)")
       (auto simp: cW find_append_None find_append_Some name_eval)
  \<comment> \<open>the date column\<close>
  have "\<exists>D. X = setitem W dc D
      \<and> dc = (case find is_date_name (columns df1) of Some c \<Rightarrow> c | None \<Rightarrow> ''date'')
      \<and> (case find is_date_name (columns df1) of
            Some c \<Rightarrow> \<exists>dv. getitem W c = Inr (Series dv) \<and> to_datetime P (Series dv) = Inr D
          | None \<Rightarrow> D = replicate (len W) NaT)"
  proof (cases "find is_date_name (columns df1)")
    case None
    with st(8) show ?thesis by (simp add: parse_dates_Inr c3 fdW)
  next
    case (Some c)
    with st(8) obtain sel D where p: "dc = c" "getitem W c = Inr sel" "to_datetime P sel = Inr D"
        "X = setitem W c D"
      by (auto simp: parse_dates_Inr c3 fdW)
    from p(3) obtain dv where "sel = Series dv" by (auto simp: to_datetime_Inr)
    with p Some show ?thesis by auto
  qed
  then obtain D where X: "X = setitem W dc D"
    and dc: "dc = (case find is_date_name (columns df1) of Some c \<Rightarrow> c | None \<Rightarrow> ''date'')"
    and Dc: "case find is_date_name (columns df1) of
            Some c \<Rightarrow> \<exists>dv. getitem W c = Inr (Series dv) \<and> to_datetime P (Series dv) = Inr D
          | None \<Rightarrow> D = replicate (len W) NaT"
    by (elim exE conjE)
  have dcn: "is_date_name dc"
    using dc find_Some_mem [of is_date_name "columns df1"] date_is_date_name
    by (auto split: option.splits)
  note nd = date_name_not_reserved [OF dcn]
  have dce: "dc \<noteq> ec" using dcn ne by auto
  have lD: "length D = len W"
  proof (cases "find is_date_name (columns df1)")
    case None
    with Dc show ?thesis by simp
  next
    case (Some c)
    with Dc obtain dv where "getitem W c = Inr (Series dv)" "to_datetime P (Series dv) = Inr D"
      by auto
    then show ?thesis using cols_ok_getitem [OF okW] length_to_datetime by fastforce
  qed
  have okX: "cols_ok X" using okW lD by (simp add: X cols_ok_setitem)
  have dX: "distinct (columns X)" using dW by (simp add: X)
  have gX: "getitem X dc = Inr (Series D)" by (simp add: X getitem_setitem dW)
  define X1 where "X1 = setitem X ''lead_day'' (map dt_date D)"
  have d1: "distinct (columns X1)" using dX by (simp add: X1_def)
  have g1: "getitem X1 dc = Inr (Series D)" using nd gX by (simp add: X1_def getitem_setitem_other)
  have Y: "Y = setitem X1 ''lead_week'' (map week_start (map to_period_W D))"
    using st(9) by (simp add: add_helpers_Inr gX g1 [unfolded X1_def] X1_def)
  have dY: "distinct (columns Y)" using d1 by (simp add: Y)
  have lX: "len X = len W" by (simp add: X)
  have okY: "cols_ok Y" using okX lD lX by (simp add: Y X1_def cols_ok_setitem)
  have out: "out = Y\<lparr>cols := filter (\<lambda>cv. fst cv \<noteq> ?mk) (cols Y)\<rparr>"
    using st(10) by (simp add: drop_column_Inr)
  have gY: "getitem Y c = getitem W c" if "c \<noteq> dc" "c \<noteq> ''lead_day''" "c \<noteq> ''lead_week''" for c
    using that by (simp add: Y X1_def X getitem_setitem_other)
  have gYd: "getitem Y dc = Inr (Series D)"
    using nd g1 by (simp add: Y getitem_setitem_other)
  have gYld: "getitem Y ''lead_day'' = Inr (Series (map dt_date D))"
    by (simp add: Y getitem_setitem_other X1_def getitem_setitem dX)
  have gYlw: "getitem Y ''lead_week'' = Inr (Series (map week_start (map to_period_W D)))"
    by (simp add: Y getitem_setitem d1)
  have gout: "getitem out c = getitem Y c" if "c \<noteq> ?mk" for c
    using that by (simp add: out getitem_delete)
  have iout: "index out = index W" by (simp add: out Y X1_def X)
  show "index out = select K (select M (index df0))" by (simp add: iout iW)
  show "getitem out ec = Inr (Series (select K (select M E)))"
    using ne dce by (simp add: gout gY gWe)
  show "ninv = int (len df0) - int (length (select M E))"
    using st(5) by (simp add: ok3 lenV)
  show "ndup = int (length (select M E)) - int (length (select K (select M E)))"
    using st(7) by (simp add: lenV lenW)
  show lo: "len out = length (select K (select M E))"
    using lenW iout by (simp add: len_def)
  show "cols_ok out" unfolding out using okY by (rule cols_ok_delete)
  show "?mk \<notin> set (columns out)"
    by (simp add: out columns_drop)
  show "distinct (columns out)" using dY by (simp add: out columns_drop)
  have W1: "set (columns df1) \<subseteq> set (columns W)" by (auto simp: cW)
  have dcW: "dc \<in> set (columns W) \<or> (dc = ''date'' \<and> find is_date_name (columns df1) = None)"
    using dc find_Some_mem [of is_date_name "columns df1"] W1 by (auto split: option.splits)
  obtain zs where cY: "columns Y = columns W @ zs"
    and zs: "set zs \<subseteq> {''date'', ''lead_day'', ''lead_week''}"
    and zd: "find is_date_name (columns df1) = None \<Longrightarrow> zs \<noteq> [] \<and> hd zs = ''date''"
  proof (cases "find is_date_name (columns df1)")
    case None
    then have "find is_date_name (columns W) = None" by (simp add: fdW)
    then have "''date'' \<notin> set (columns W)"
      using date_is_date_name by (auto simp: find_None_iff)
    then have "columns X = columns W @ [''date'']" using dc None by (simp add: X columns_setitem)
    then have "\<exists>zs. columns Y = columns W @ zs \<and> set zs \<subseteq> {''date'', ''lead_day'', ''lead_week''}
        \<and> zs \<noteq> [] \<and> hd zs = ''date''"
      by (auto simp: Y X1_def columns_setitem)
    then show ?thesis using that by blast
  next
    case (Some c)
    with dcW have "columns X = columns W" by (simp add: X columns_setitem)
    then have "\<exists>zs. columns Y = columns W @ zs \<and> set zs \<subseteq> {''date'', ''lead_day'', ''lead_week''}"
      by (auto simp: Y X1_def columns_setitem)
    then show ?thesis using that Some by auto
  qed
  have cout: "columns out = filter (\<lambda>x. x \<noteq> ?mk) (columns W @ zs)"
    by (simp add: out columns_drop cY)
  show "\<forall>c \<in> set (columns out). strip c = c"
  proof
    fix c assume "c \<in> set (columns out)"
    then have "c \<in> set (columns df1) \<or> c \<in> {''date'', ''lead_day'', ''lead_week''}"
      using zs by (auto simp: cout cW split: if_splits)
    then show "strip c = c"
      by (auto simp: df1_def columns_rename_strip strip_idem reserved_strip)
  qed
  have "find is_email_name (columns W) = Some ec"
    using ec by (auto simp: cW find_append_Some)
  then show "find is_email_name (columns out) = Some ec"
    unfolding cout using ne by (intro find_filter_Some find_append_Some) auto
  have fdo: "find is_date_name (columns out) = Some dc"
  proof (cases "find is_date_name (columns df1)")
    case None
    then have "find is_date_name (columns W) = None" by (simp add: fdW)
    moreover from zd [OF None] have "find is_date_name zs = Some ''date''"
      using date_is_date_name by (cases zs) auto
    ultimately have "find is_date_name (columns W @ zs) = Some ''date''"
      by (simp add: find_append_None)
    then have "find is_date_name (filter (\<lambda>x. x \<noteq> ?mk) (columns W @ zs)) = Some ''date''"
      by (rule find_filter_Some) simp
    then show ?thesis unfolding cout using dc None by simp
  next
    case (Some c)
    then have "find is_date_name (columns W) = Some dc" using dc by (simp add: fdW)
    then show ?thesis unfolding cout using nd
      by (intro find_filter_Some find_append_Some) auto
  qed
  have gD: "getitem out dc = Inr (Series D)"
    using nd by (simp add: gout gYd)
  have gLD: "getitem out ''lead_day'' = Inr (Series (map dt_date D))"
    by (simp add: gout gYld)
  have gLW: "getitem out ''lead_week'' = Inr (Series (map week_start (map to_period_W D)))"
    by (simp add: gout gYlw)
  have Dform: "(case find is_date_name (columns df1) of
                   Some c \<Rightarrow> dc = c \<and> (\<exists>dv. getitem df1 c = Inr (Series dv)
                                \<and> to_datetime P (Series (select K (select M dv))) = Inr D)
                 | None \<Rightarrow> dc = ''date'' \<and> D = replicate (len out) NaT)"
  proof (cases "find is_date_name (columns df1)")
    case None
    with Dc show ?thesis using dc lo lenW by simp
  next
    case (Some c)
    then have c: "c \<in> set (columns df1)" "is_date_name c"
      using find_Some_mem [of is_date_name "columns df1" c] by simp_all
    then obtain dv where dv: "getitem df1 c = Inr (Series dv)"
      using getitem_in_columns [OF dist, of c] by blast
    have "c \<noteq> ec" "c \<noteq> ?mk" using c ne date_name_not_reserved [OF c(2)] by auto
    then have "getitem W c = Inr (Series (select K (select M dv)))" using dv by (intro gW)
    moreover from Dc Some obtain dv' where "getitem W c = Inr (Series dv')"
        "to_datetime P (Series dv') = Inr D"
      by auto
    ultimately have "to_datetime P (Series (select K (select M dv))) = Inr D" by simp
    then show ?thesis using Some dc dv by simp
  qed
  from Dform fdo gD gLD gLW
  show "\<exists>dc D. (case find is_date_name (columns df1) of
                   Some c \<Rightarrow> dc = c \<and> (\<exists>dv. getitem df1 c = Inr (Series dv)
                                \<and> to_datetime P (Series (select K (select M dv))) = Inr D)
                 | None \<Rightarrow> dc = ''date'' \<and> D = replicate (len out) NaT)
           \<and> find is_date_name (columns out) = Some dc
           \<and> getitem out dc = Inr (Series D)
           \<and> getitem out ''lead_day'' = Inr (Series (map dt_date D))
           \<and> getitem out ''lead_week'' = Inr (Series (map week_start (map to_period_W D)))"
    by blast
  show "\<forall>c vs. getitem df1 c = Inr (Series vs) \<and> c \<noteq> ec \<and> find is_date_name (columns df1) \<noteq> Some c
            \<and> c \<notin> {''__valid_email'', ''lead_day'', ''lead_week''}
          \<longrightarrow> getitem out c = Inr (Series (select K (select M vs)))"
  proof (intro allI impI)
    fix c vs
    assume a: "getitem df1 c = Inr (Series vs) \<and> c \<noteq> ec \<and> find is_date_name (columns df1) \<noteq> Some c
            \<and> c \<notin> {''__valid_email'', ''lead_day'', ''lead_week''}"
    then have cin: "c \<in> set (columns df1)" using getitem_Series_columns [of df1 c] by blast
    have "c \<noteq> dc"
    proof (cases "find is_date_name (columns df1)")
      case None
      with cin have "\<not> is_date_name c" by (auto simp: find_None_iff)
      with dcn show ?thesis by auto
    next
      case (Some c')
      with a dc show ?thesis by auto
    qed
    moreover from a have "getitem W c = Inr (Series (select K (select M vs)))" by (intro gW) auto
    ultimately show "getitem out c = Inr (Series (select K (select M vs)))"
      using a by (simp add: gout gY)
  qed
qed

lemma duplicated_Str: "duplicated [] (map Str xs) = duplicated [] xs"
  using duplicated_map_inj [of Str "[]" xs] by (simp add: inj_def)

lemma length_filter_id_map: "length (filter (\<lambda>b. b) (map f xs)) = length (filter f xs)"
  by (induction xs) simp_all

lemma clean_leads_email:
  assumes "clean_leads P R df = Inr (out, ninv, ndup)"
  obtains ec ev where "email_label df = Some ec" "getitem (rename_strip df) ec = Inr (Series ev)"
    "canonical_emails R df = map (\<lambda>e. strip (py_str R e)) ev"
proof -
  from assms obtain ec df2 where
    "find is_email_name (columns (rename_strip df)) = Some ec"
    "trim_emails R (rename_strip df) ec = Inr df2"
    by (rule clean_leads_Inr)
  then obtain ev where "email_label df = Some ec" "getitem (rename_strip df) ec = Inr (Series ev)"
    by (auto simp: trim_emails_Inr email_label_def)
  moreover from this have "canonical_emails R df = map (\<lambda>e. strip (py_str R e)) ev"
    by (simp add: canonical_emails_def column_of_def)
  ultimately show ?thesis using that by blast
qed

text \<open>The run of \<open>clean_leads\<close> in terms of the canonical emails of the input rows.\<close>

lemma clean_leads_rows:
  fixes P R df out ninv ndup
  defines "ks \<equiv> canonical_emails R df"
  defines "M \<equiv> map (is_valid_key R) ks"
  defines "K \<equiv> map Not (duplicated [] (select M ks))"
  assumes wf: "wf_frame df" and run: "clean_leads P R df = Inr (out, ninv, ndup)"
  shows "length ks = len df"
    and "index out = select K (select M (index df))"
    and "\<exists>ec. email_label df = Some ec \<and> email_label out = Some ec
           \<and> getitem out ec = Inr (Series (map Str (select K (select M ks))))"
    and "ninv = int (len df) - int (length (filter (is_valid_key R) ks))"
    and "ndup = int (length (filter (is_valid_key R) ks)) - int (len out)"
    and "len out = length (select K (select M ks))"
proof -
  note ok = wf_cols_ok [OF wf] and dist = wf_distinct [OF wf]
  from run obtain ec ev where e: "email_label df = Some ec" "getitem (rename_strip df) ec = Inr (Series ev)"
    "canonical_emails R df = map (\<lambda>e. strip (py_str R e)) ev"
    by (rule clean_leads_email)
  let ?E = "map (\<lambda>e. Str (strip (py_str R e))) ev"
  have E: "?E = map Str ks" by (simp add: ks_def e(3))
  have M: "map (valid_email R) (map Str ks) = M" by (simp add: M_def is_valid_key_def)
  have K: "map Not (duplicated [] (select M ks)) = K" by (simp add: K_def)
  note f = clean_leads_facts [OF ok dist run e(1) [unfolded email_label_def] e(2),
      unfolded E M select_map duplicated_Str K]
  show l: "length ks = len df"
    using getitem_rename_len [OF ok e(2)] by (simp add: ks_def e(3))
  show "index out = select K (select M (index df))" by (rule f(1))
  have "columns (rename_strip out) = columns out"
    using f(8) by (simp add: columns_rename_strip map_idI)
  then have "email_label out = Some ec" using f(9) by (simp add: email_label_def)
  then show "\<exists>ec. email_label df = Some ec \<and> email_label out = Some ec
           \<and> getitem out ec = Inr (Series (map Str (select K (select M ks))))"
    using e(1) f(2) by simp
  have lf: "length (select M ks) = length (filter (is_valid_key R) ks)"
    unfolding M_def by (simp add: length_select comp_def)
  show lo: "len out = length (select K (select M ks))" using f(5) by simp
  show "ninv = int (len df) - int (length (filter (is_valid_key R) ks))"
    using f(3) lf by simp
  show "ndup = int (length (filter (is_valid_key R) ks)) - int (len out)"
    using f(4) lf lo by simp
qed




lemma undated_run: "clean_leads sample_parser sample_repr undated_leads = Inr (undated_clean, 0, 0)"
  by code_simp


section \<open>The helper columns\<close>


lemma clean_leads_dates:
  fixes P R df out ninv ndup
  defines "ks \<equiv> canonical_emails R df"
  defines "M \<equiv> map (is_valid_key R) ks"
  defines "K \<equiv> map Not (duplicated [] (select M ks))"
  assumes wf: "wf_frame df" and run: "clean_leads P R df = Inr (out, ninv, ndup)"
  obtains dc D where
    "length D = len out" "list_all is_datetime D"
    "date_label out = Some dc"
    "getitem out dc = Inr (Series D)"
    "getitem out ''lead_day'' = Inr (Series (map dt_date D))"
    "getitem out ''lead_week'' = Inr (Series (map week_start (map to_period_W D)))"
    "date_label df = None \<longrightarrow> dc = ''date'' \<and> D = replicate (len out) NaT"
    "\<forall>c. date_label df = Some c \<longrightarrow>
       dc = c \<and> to_datetime P (Series (select K (select M (column_of (rename_strip df) c)))) = Inr D"
proof -
  note ok = wf_cols_ok [OF wf] and dist = wf_distinct [OF wf]
  from run obtain ec ev where e: "email_label df = Some ec" "getitem (rename_strip df) ec = Inr (Series ev)"
    "canonical_emails R df = map (\<lambda>e. strip (py_str R e)) ev"
    by (rule clean_leads_email)
  have E: "map (\<lambda>e. Str (strip (py_str R e))) ev = map Str ks" by (simp add: ks_def e(3))
  have M: "map (valid_email R) (map Str ks) = M" by (simp add: M_def is_valid_key_def)
  have K: "map Not (duplicated [] (select M ks)) = K" by (simp add: K_def)
  note f = clean_leads_facts [OF ok dist run e(1) [unfolded email_label_def] e(2),
      unfolded E M select_map duplicated_Str K]
  from f(10) obtain dc D where d:
    "case find is_date_name (columns (rename_strip df)) of
       Some c \<Rightarrow> dc = c \<and> (\<exists>dv. getitem (rename_strip df) c = Inr (Series dv)
                    \<and> to_datetime P (Series (select K (select M dv))) = Inr D)
     | None \<Rightarrow> dc = ''date'' \<and> D = replicate (len out) NaT"
    "find is_date_name (columns out) = Some dc"
    "getitem out dc = Inr (Series D)"
    "getitem out ''lead_day'' = Inr (Series (map dt_date D))"
    "getitem out ''lead_week'' = Inr (Series (map week_start (map to_period_W D)))"
    by blast
  have 1: "length D = len out" using cols_ok_getitem [OF f(6) d(3)] .
  have "list_all is_datetime (replicate n NaT)" for n by (simp add: list_all_iff)
  then have 2: "list_all is_datetime D"
    using d(1) to_datetime_all by (auto split: option.splits)
  have "columns (rename_strip out) = columns out"
    using f(8) by (simp add: columns_rename_strip map_idI)
  then have 3: "date_label out = Some dc" using d(2) by (simp add: date_label_def)
  have 4: "date_label df = None \<longrightarrow> dc = ''date'' \<and> D = replicate (len out) NaT"
    using d(1) by (auto simp: date_label_def)
  have 5: "\<forall>c. date_label df = Some c \<longrightarrow>
       dc = c \<and> to_datetime P (Series (select K (select M (column_of (rename_strip df) c)))) = Inr D"
    using d(1) by (auto simp: date_label_def column_of_def)
  from 1 2 3 d(3,4,5) 4 5 show ?thesis by (rule that)
qed




section \<open>The report\<close>


lemma generate_report_Inr:
  assumes "getitem df ''lead_day'' = Inr (Series ld)" "getitem df ''lead_week'' = Inr (Series lw)"
    "getitem df ec = Inr (Series es)"
  shows "generate_report df ec =
     Inr \<lparr>daily = groupby_count ld es, weekly = groupby_count lw es, total_leads = len df,
          unique_customers = nunique es\<rparr>"
proof -
  have "''lead_day'' \<in> set (columns df)" "''lead_week'' \<in> set (columns df)"
    using getitem_Series_columns [OF assms(1)] getitem_Series_columns [OF assms(2)] by simp_all
  moreover have "labelled df ec = [es]" using assms(3) by (simp add: getitem_Series)
  ultimately show ?thesis
    using assms by (simp add: generate_report_def groupby_email_count_def bindE_def)
qed







lemma clean_leads_labels_fixed:
  assumes wf: "wf_frame df" and run: "clean_leads P R df = Inr (out, ninv, ndup)"
  shows "columns (rename_strip out) = columns out" and "cols_ok out"
proof -
  note ok = wf_cols_ok [OF wf] and dist = wf_distinct [OF wf]
  from run obtain ec ev where e: "email_label df = Some ec" "getitem (rename_strip df) ec = Inr (Series ev)"
    by (rule clean_leads_email)
  note f = clean_leads_facts [OF ok dist run e(1) [unfolded email_label_def] e(2)]
  show "columns (rename_strip out) = columns out"
    using f(8) by (simp add: columns_rename_strip map_idI)
  show "cols_ok out" by (rule f(6))
qed

lemma distinct_clean_keys:
  "distinct (map Str (select (map Not (duplicated [] xs)) xs))"
  by (simp add: distinct_map keep_first_distinct inj_on_def)












section \<open>Schema resolution\<close>

lemma clean_leads_schema_error:
  "email_label df = None \<Longrightarrow>
   clean_leads P R df = Inl (ValueError ''Input CSV must contain an 'email' column'')"
  by (simp add: clean_leads_def email_label_def)

lemma main_schema_error:
  "email_label df = None \<Longrightarrow>
   main P R df = Exit 2 ''Error: Input CSV must contain an 'email' column''"
  by (simp add: main_def clean_leads_schema_error)

lemma main_ValueError:
  "clean_leads P R df = Inl (ValueError msg) \<Longrightarrow> main P R df = Exit 2 (''Error: '' @ msg)"
  by (simp add: main_def)

lemma email_label_None_iff:
  "(email_label df = None) = (\<not> (\<exists>c \<in> set (columns df). lower (strip c) = ''email''))"
  by (auto simp: email_label_def find_None_iff columns_rename_strip is_email_name_def)

lemma date_label_None_iff:
  "(date_label df = None)
     = (\<not> (\<exists>c \<in> set (columns df). lower (strip c) \<in> {''date'', ''created_at'', ''lead_date''}))"
  by (auto simp: date_label_def find_None_iff columns_rename_strip is_date_name_def)

text \<open>A well-formed table without rows does not get through \<open>clean_leads\<close>.\<close>

lemma clean_leads_no_rows:
  assumes "wf_frame df" and "len df = 0"
  shows "clean_leads P R df \<noteq> Inr (out, a, b)"
proof
  assume run: "clean_leads P R df = Inr (out, a, b)"
  then obtain ec ev where e: "email_label df = Some ec"
      "getitem (rename_strip df) ec = Inr (Series ev)"
    by (rule clean_leads_email)
  from clean_leads_facts(12) [OF wf_cols_ok [OF assms(1)] wf_distinct [OF assms(1)] run
      e(1) [unfolded email_label_def] e(2)] assms(2)
  show False by contradiction
qed

text \<open>
  A well-formed table with rows, an email column and no date-like column gets through
  \<open>clean_leads\<close>, whatever the parser does.
\<close>

lemma clean_leads_undated_succeeds:
  assumes wf: "wf_frame df" and rows: "len df \<noteq> 0"
    and ec: "email_label df = Some ec" and nd: "date_label df = None"
  shows "\<exists>out a b. clean_leads P R df = Inr (out, a, b)"
proof -
  let ?mk = "''__valid_email''"
  let ?df1 = "rename_strip df"
  note ok = wf_cols_ok [OF wf] and dist = wf_distinct [OF wf]
  have fe: "find is_email_name (columns ?df1) = Some ec" using ec by (simp add: email_label_def)
  have fd: "find is_date_name (columns ?df1) = None" using nd by (simp add: date_label_def)
  have en: "is_email_name ec" "ec \<in> set (columns ?df1)"
    using find_Some_mem [OF fe] by simp_all
  note ne = email_name_not_reserved [OF en(1)]
  from en(2) obtain ev where ev: "getitem ?df1 ec = Inr (Series ev)"
    using getitem_in_columns [OF dist, of ec] by blast
  have lev: "length ev = len df" using getitem_rename_len [OF ok ev] .
  have ok1: "cols_ok ?df1" using ok by (rule cols_ok_rename_strip)
  have len1: "len ?df1 = len df" by (simp add: len_def)
  define E where "E = map (\<lambda>e. Str (strip (py_str R e))) ev"
  define df2 where "df2 = setitem ?df1 ec E"
  have 1: "trim_emails R ?df1 ec = Inr df2"
    using ev by (simp add: trim_emails_Inr df2_def E_def)
  have d2: "distinct (columns df2)" using dist by (simp add: df2_def)
  have g2: "getitem df2 ec = Inr (Series E)" by (simp add: df2_def getitem_setitem dist)
  define Mk where "Mk = map (\<lambda>e. Bool (valid_email R e)) E"
  define df3 where "df3 = setitem df2 ?mk Mk"
  have 2: "mark_valid R df2 ec = Inr df3"
    using g2 by (simp add: mark_valid_Inr df3_def Mk_def)
  have d3: "distinct (columns df3)" using d2 by (simp add: df3_def)
  have g3: "getitem df3 ?mk = Inr (Series Mk)" by (simp add: df3_def getitem_setitem d2)
  have lMk: "length Mk = len df" by (simp add: Mk_def E_def lev)
  with rows have Mne: "Mk \<noteq> []" by auto
  have ok3: "cols_ok df3" "len df3 = len df"
    using ok1 len1 lMk lev by (simp_all add: df3_def df2_def E_def cols_ok_setitem)
  define V where "V = take_mask (map (\<lambda>b. b = Bool True) Mk) df3"
  have 3: "keep_valid df3 = Inr V"
    using g3 Mne by (simp add: keep_valid_Inr V_def)
  have okV: "cols_ok V" using ok3 lMk by (simp add: V_def cols_ok_take_mask)
  have "getitem df3 ec = Inr (Series E)"
    using ne g2 by (simp add: df3_def getitem_setitem_other)
  then obtain ks where gVe: "getitem V ec = Inr (Series ks)"
    by (simp add: V_def getitem_take_mask)
  define W where "W = take_mask (map Not (duplicated [] ks)) V"
  have 4: "drop_duplicates V ec = Inr W"
    using drop_duplicates_Series [OF okV gVe] by (simp add: W_def)
  have dW: "distinct (columns W)" using d3 by (simp add: W_def V_def)
  have c3: "columns df3 = (if ?mk \<in> set (columns ?df1) then columns ?df1 else columns ?df1 @ [?mk])"
    using en(2) by (simp add: df3_def df2_def columns_setitem)
  have cW: "columns W = columns df3" by (simp add: W_def V_def)
  have f3: "find is_date_name (columns df3) = None"
    using fd by (auto simp: c3 find_append_None name_eval)
  define X where "X = setitem W ''date'' (replicate (len W) NaT)"
  have 5: "parse_dates P df3 W = Inr (X, ''date'')"
    using f3 by (simp add: parse_dates_Inr X_def)
  have gX: "getitem X ''date'' = Inr (Series (replicate (len W) NaT))"
    by (simp add: X_def getitem_setitem dW)
  define Y where "Y = setitem (setitem X ''lead_day'' (map dt_date (replicate (len W) NaT)))
      ''lead_week'' (map week_start (map to_period_W (replicate (len W) NaT)))"
  have 6: "add_helpers X ''date'' = Inr Y"
    using gX by (simp add: add_helpers_Inr Y_def getitem_setitem_other)
  have "?mk \<in> set (columns W)" by (simp add: cW c3)
  then have "?mk \<in> set (columns Y)" by (simp add: Y_def X_def columns_setitem)
  then obtain out where 7: "drop_column Y ?mk = Inr out"
    by (simp add: drop_column_Inr)
  show ?thesis
    using fe 1 2 3 4 5 6 7 by (simp add: clean_leads_def bindE_def Let_def)
qed

lemma main_completes:
  assumes wf: "wf_frame df" and run: "clean_leads P R df = Inr (out, a, b)"
  shows "\<exists>meta. main P R df = Completed out meta a b"
proof -
  from clean_leads_rows(3) [OF wf run] obtain ec where
    ec: "email_label out = Some ec"
      "getitem out ec = Inr (Series (map Str (kept R df (canonical_emails R df))))"
    by (auto simp: kept_def Let_def)
  from wf run obtain dc D where "length D = len out" "list_all is_datetime D"
    "date_label out = Some dc" "getitem out dc = Inr (Series D)"
    and d: "getitem out ''lead_day'' = Inr (Series (map dt_date D))"
      "getitem out ''lead_week'' = Inr (Series (map week_start (map to_period_W D)))"
    by (rule clean_leads_dates)
  have "find is_email_name (columns out) = Some ec"
    using ec(1) clean_leads_labels_fixed(1) [OF wf run] by (simp add: email_label_def)
  then show ?thesis
    using run generate_report_Inr [OF d ec(2)] by (simp add: main_def)
qed

text \<open>
  Where the pipeline agrees with claim C4: without an email column \<open>main\<close> ends with status
  2 and the message of line 66, and a well-formed table that has rows, an email column and
  no date-like column is cleaned, with the columns \<open>date\<close>, \<open>lead_day\<close> and \<open>lead_week\<close>
  absent in every record.
\<close>

lemma undated_table_proceeds:
  assumes wf: "wf_frame df" and rows: "len df \<noteq> 0"
    and em: "\<exists>c \<in> set (columns df). lower (strip c) = ''email''"
    and nd: "\<not> (\<exists>c \<in> set (columns df). lower (strip c) \<in> {''date'', ''created_at'', ''lead_date''})"
  shows "\<exists>out meta a b. main P R df = Completed out meta a b
              \<and> ''date'' \<in> set (columns out)
              \<and> column_of out ''date'' = replicate (len out) NaT
              \<and> column_of out ''lead_day'' = replicate (len out) NaT
              \<and> column_of out ''lead_week'' = replicate (len out) NaT"
proof -
  from em obtain ec where ec: "email_label df = Some ec"
    using email_label_None_iff [of df] by auto
  from nd have dl: "date_label df = None" by (simp add: date_label_None_iff)
  from clean_leads_undated_succeeds [OF wf rows ec dl]
  obtain out a b where run: "clean_leads P R df = Inr (out, a, b)" by blast
  from wf run obtain dc D where "length D = len out" "list_all is_datetime D"
    and d: "date_label out = Some dc" "getitem out dc = Inr (Series D)"
      "getitem out ''lead_day'' = Inr (Series (map dt_date D))"
      "getitem out ''lead_week'' = Inr (Series (map week_start (map to_period_W D)))"
      "date_label df = None \<longrightarrow> dc = ''date'' \<and> D = replicate (len out) NaT"
    by (rule clean_leads_dates)
  from d(5) dl have dc: "dc = ''date''" and D: "D = replicate (len out) NaT" by simp_all
  have "''date'' \<in> set (columns out)"
    using d(2) dc getitem_Series_columns [of out "''date''"] by auto
  moreover have "column_of out ''date'' = replicate (len out) NaT"
    using d(2) dc D by (simp add: column_of_def)
  moreover have "column_of out ''lead_day'' = replicate (len out) NaT"
    "column_of out ''lead_week'' = replicate (len out) NaT"
    using d(3,4) by (simp_all add: column_of_def D week_start_def)
  moreover obtain meta where "main P R df = Completed out meta a b"
    using main_completes [OF wf run] by blast
  ultimately show ?thesis by blast
qed

lemma no_email_main:
  "main sample_parser sample_repr no_email_leads
     = Exit 2 ''Error: Input CSV must contain an 'email' column''"
  by code_simp

text \<open>
  Claim C4 does not hold of the code. The table \<open>empty_leads\<close> is what \<open>read_csv\<close> makes of
  a file that holds the header \<open>email,name\<close> and no record: it is well formed, has an email
  column and has no date-like column. The claim says that the pipeline proceeds, with the
  column \<open>date\<close> absent in every record. The code creates that column and then raises
  \<open>KeyError\<close> in line 99, for every parser and every rendering: on a frame without rows
  the marker column of line 72 is not boolean, line 73 selects no column instead of no row,
  and the marker column that line 99 drops is not there. \<open>main\<close> does not catch the
  exception.
\<close>

theorem C4_empty_table_raises_KeyError:
  "wf_frame empty_leads
   \<and> email_label empty_leads = Some ''email''
   \<and> date_label empty_leads = None
   \<and> clean_leads P R empty_leads = Inl (KeyError ''['__valid_email'] not found in axis'')
   \<and> main P R empty_leads = Uncaught (KeyError ''['__valid_email'] not found in axis'')"
proof -
  have 1: "wf_frame empty_leads" by code_simp
  have 2: "email_label empty_leads = Some ''email''" by code_simp
  have 3: "date_label empty_leads = None" by code_simp
  have 4: "clean_leads P R empty_leads = Inl (KeyError ''['__valid_email'] not found in axis'')"
    by code_simp
  then have 5: "main P R empty_leads = Uncaught (KeyError ''['__valid_email'] not found in axis'')"
    by (simp add: main_def)
  show ?thesis by (rule conjI [OF 1 conjI [OF 2 conjI [OF 3 conjI [OF 4 5]]]])
qed

lemma find_Some_split:
  "(find Q xs = Some c) = (\<exists>pre post. xs = pre @ c # post \<and> Q c \<and> (\<forall>x \<in> set pre. \<not> Q x))"
proof (induction xs)
  case Nil
  show ?case by simp
next
  case (Cons x xs)
  show ?case
  proof (cases "Q x")
    case True
    have "(\<exists>pre post. x # xs = pre @ c # post \<and> Q c \<and> (\<forall>y \<in> set pre. \<not> Q y)) = (x = c)"
    proof
      assume "\<exists>pre post. x # xs = pre @ c # post \<and> Q c \<and> (\<forall>y \<in> set pre. \<not> Q y)"
      then obtain pre post where p: "x # xs = pre @ c # post" "\<forall>y \<in> set pre. \<not> Q y" by blast
      show "x = c"
      proof (cases pre)
        case Nil
        with p show ?thesis by simp
      next
        case (Cons y ys)
        with p True show ?thesis by auto
      qed
    next
      assume "x = c"
      with True have "x # xs = [] @ c # xs \<and> Q c \<and> (\<forall>y \<in> set []. \<not> Q y)" by simp
      then show "\<exists>pre post. x # xs = pre @ c # post \<and> Q c \<and> (\<forall>y \<in> set pre. \<not> Q y)" by blast
    qed
    with True show ?thesis by simp
  next
    case False
    have "(\<exists>pre post. x # xs = pre @ c # post \<and> Q c \<and> (\<forall>y \<in> set pre. \<not> Q y))
        = (\<exists>pre post. xs = pre @ c # post \<and> Q c \<and> (\<forall>y \<in> set pre. \<not> Q y))"
    proof
      assume "\<exists>pre post. x # xs = pre @ c # post \<and> Q c \<and> (\<forall>y \<in> set pre. \<not> Q y)"
      then obtain pre post where p: "x # xs = pre @ c # post" "Q c" "\<forall>y \<in> set pre. \<not> Q y" by blast
      with False obtain pre' where "pre = x # pre'" by (cases pre) auto
      with p have "xs = pre' @ c # post \<and> Q c \<and> (\<forall>y \<in> set pre'. \<not> Q y)" by simp
      then show "\<exists>pre post. xs = pre @ c # post \<and> Q c \<and> (\<forall>y \<in> set pre. \<not> Q y)" by blast
    next
      assume "\<exists>pre post. xs = pre @ c # post \<and> Q c \<and> (\<forall>y \<in> set pre. \<not> Q y)"
      then obtain pre post where "xs = pre @ c # post" "Q c" "\<forall>y \<in> set pre. \<not> Q y" by blast
      with False have "x # xs = (x # pre) @ c # post \<and> Q c \<and> (\<forall>y \<in> set (x # pre). \<not> Q y)" by simp
      then show "\<exists>pre post. x # xs = pre @ c # post \<and> Q c \<and> (\<forall>y \<in> set pre. \<not> Q y)" by blast
    qed
    with False Cons show ?thesis by simp
  qed
qed

lemma clean_leads_columns:
  assumes wf: "wf_frame df" and run: "clean_leads P R df = Inr (out, a, b)"
  shows "\<exists>ec. email_label df = Some ec
           \<and> column_of out ec = map Str (kept R df (canonical_emails R df))"
    and "\<forall>dc. date_label df = Some dc \<longrightarrow>
           to_datetime P (Series (kept R df (column_of (rename_strip df) dc))) = Inr (column_of out dc)
           \<and> column_of out ''lead_day'' = map dt_date (column_of out dc)
           \<and> column_of out ''lead_week'' = map week_start (map to_period_W (column_of out dc))"
    and "\<forall>c. c \<in> set (columns (rename_strip df)) \<and> email_label df \<noteq> Some c
            \<and> date_label df \<noteq> Some c \<and> c \<notin> {''__valid_email'', ''lead_day'', ''lead_week''}
          \<longrightarrow> column_of out c = kept R df (column_of (rename_strip df) c)"
    and "index out = kept R df (index df)"
proof -
  note ok = wf_cols_ok [OF wf] and dist = wf_distinct [OF wf]
  from run obtain ec ev where e: "email_label df = Some ec" "getitem (rename_strip df) ec = Inr (Series ev)"
    "canonical_emails R df = map (\<lambda>e. strip (py_str R e)) ev"
    by (rule clean_leads_email)
  let ?ks = "canonical_emails R df"
  let ?M = "map (is_valid_key R) ?ks"
  let ?K = "map Not (duplicated [] (select ?M ?ks))"
  have kept: "select ?K (select ?M xs) = kept R df xs" for xs :: "'b list"
    by (simp add: kept_def Let_def)
  have E: "map (\<lambda>e. Str (strip (py_str R e))) ev = map Str ?ks" by (simp add: e(3))
  have M: "map (valid_email R) (map Str ?ks) = ?M" by (simp add: is_valid_key_def)
  note f = clean_leads_facts [OF ok dist run e(1) [unfolded email_label_def] e(2),
      unfolded E M select_map duplicated_Str kept]
  show "index out = kept R df (index df)" by (rule f(1))
  show "\<exists>ec. email_label df = Some ec
           \<and> column_of out ec = map Str (kept R df (canonical_emails R df))"
    using e(1) f(2) by (simp add: column_of_def)
  from wf run obtain dc D where "length D = len out" "list_all is_datetime D" "date_label out = Some dc"
    and d: "getitem out dc = Inr (Series D)"
      "getitem out ''lead_day'' = Inr (Series (map dt_date D))"
      "getitem out ''lead_week'' = Inr (Series (map week_start (map to_period_W D)))"
      "date_label df = None \<longrightarrow> dc = ''date'' \<and> D = replicate (len out) NaT"
      "\<forall>c. date_label df = Some c \<longrightarrow>
         dc = c \<and> to_datetime P (Series (select ?K (select ?M (column_of (rename_strip df) c)))) = Inr D"
    by (rule clean_leads_dates)
  show "\<forall>dc. date_label df = Some dc \<longrightarrow>
           to_datetime P (Series (kept R df (column_of (rename_strip df) dc))) = Inr (column_of out dc)
           \<and> column_of out ''lead_day'' = map dt_date (column_of out dc)
           \<and> column_of out ''lead_week'' = map week_start (map to_period_W (column_of out dc))"
    using d by (auto simp: column_of_def kept)
  show "\<forall>c. c \<in> set (columns (rename_strip df)) \<and> email_label df \<noteq> Some c
            \<and> date_label df \<noteq> Some c \<and> c \<notin> {''__valid_email'', ''lead_day'', ''lead_week''}
          \<longrightarrow> column_of out c = kept R df (column_of (rename_strip df) c)"
  proof (intro allI impI)
    fix c
    assume a: "c \<in> set (columns (rename_strip df)) \<and> email_label df \<noteq> Some c
            \<and> date_label df \<noteq> Some c \<and> c \<notin> {''__valid_email'', ''lead_day'', ''lead_week''}"
    then obtain vs where vs: "getitem (rename_strip df) c = Inr (Series vs)"
      using getitem_in_columns [OF dist, of c] by blast
    with a e(1) have "getitem out c = Inr (Series (kept R df vs))"
      using f(11) by (auto simp: date_label_def)
    with vs show "column_of out c = kept R df (column_of (rename_strip df) c)"
      by (simp add: column_of_def)
  qed
qed

text \<open>
  Where the pipeline agrees with claim C10. The email column is the first column of the
  header whose trimmed name is \<open>email\<close> in lower case, and the date column is the first
  whose trimmed name is \<open>date\<close>, \<open>created_at\<close> or \<open>lead_date\<close> in lower case: no column
  before it matches, whatever alias it carries. When the labels are distinct after trimming
  and \<open>clean_leads\<close> returns, the clean emails are the trimmed cells of that email column in
  the surviving rows, \<open>lead_day\<close> and \<open>lead_week\<close> are derived from that date column, and
  every other column with a matching name is carried over like any data column: its cells
  in the surviving rows, unchanged.
\<close>

lemma first_matching_column_when_distinct:
  "(email_label df = Some c)
      = (\<exists>pre post. map strip (columns df) = pre @ c # post \<and> lower c = ''email''
           \<and> (\<forall>x \<in> set pre. lower x \<noteq> ''email''))
   \<and> (date_label df = Some c)
      = (\<exists>pre post. map strip (columns df) = pre @ c # post
           \<and> lower c \<in> {''date'', ''created_at'', ''lead_date''}
           \<and> (\<forall>x \<in> set pre. lower x \<notin> {''date'', ''created_at'', ''lead_date''}))
   \<and> (wf_frame df \<and> clean_leads P R df = Inr (out, a, b) \<longrightarrow>
         (\<exists>ec. email_label df = Some ec
            \<and> column_of out ec = map Str (kept R df (canonical_emails R df)))
       \<and> (\<forall>dc. date_label df = Some dc \<longrightarrow>
            to_datetime P (Series (kept R df (column_of (rename_strip df) dc))) = Inr (column_of out dc)
            \<and> column_of out ''lead_day'' = map dt_date (column_of out dc)
            \<and> column_of out ''lead_week'' = map week_start (map to_period_W (column_of out dc)))
       \<and> (\<forall>c'. c' \<in> set (map strip (columns df))
             \<and> (lower c' = ''email'' \<or> lower c' \<in> {''date'', ''created_at'', ''lead_date''})
             \<and> email_label df \<noteq> Some c' \<and> date_label df \<noteq> Some c'
           \<longrightarrow> column_of out c' = kept R df (column_of (rename_strip df) c')))"
proof -
  have 1: "(email_label df = Some c)
      = (\<exists>pre post. map strip (columns df) = pre @ c # post \<and> lower c = ''email''
           \<and> (\<forall>x \<in> set pre. lower x \<noteq> ''email''))"
    by (simp add: email_label_def find_Some_split columns_rename_strip is_email_name_def)
  have 2: "(date_label df = Some c)
      = (\<exists>pre post. map strip (columns df) = pre @ c # post
           \<and> lower c \<in> {''date'', ''created_at'', ''lead_date''}
           \<and> (\<forall>x \<in> set pre. lower x \<notin> {''date'', ''created_at'', ''lead_date''}))"
    by (simp only: date_label_def find_Some_split columns_rename_strip is_date_name_def)
  have 3: "(\<exists>ec. email_label df = Some ec
            \<and> column_of out ec = map Str (kept R df (canonical_emails R df)))
       \<and> (\<forall>dc. date_label df = Some dc \<longrightarrow>
            to_datetime P (Series (kept R df (column_of (rename_strip df) dc))) = Inr (column_of out dc)
            \<and> column_of out ''lead_day'' = map dt_date (column_of out dc)
            \<and> column_of out ''lead_week'' = map week_start (map to_period_W (column_of out dc)))
       \<and> (\<forall>c'. c' \<in> set (map strip (columns df))
             \<and> (lower c' = ''email'' \<or> lower c' \<in> {''date'', ''created_at'', ''lead_date''})
             \<and> email_label df \<noteq> Some c' \<and> date_label df \<noteq> Some c'
           \<longrightarrow> column_of out c' = kept R df (column_of (rename_strip df) c'))"
    if wf: "wf_frame df" and run: "clean_leads P R df = Inr (out, a, b)"
  proof -
    note c = clean_leads_columns [OF wf run]
    have t: "\<forall>c'. c' \<in> set (map strip (columns df))
             \<and> (lower c' = ''email'' \<or> lower c' \<in> {''date'', ''created_at'', ''lead_date''})
             \<and> email_label df \<noteq> Some c' \<and> date_label df \<noteq> Some c'
           \<longrightarrow> column_of out c' = kept R df (column_of (rename_strip df) c')"
    proof (intro allI impI, elim conjE)
      fix c'
      assume a: "c' \<in> set (map strip (columns df))"
        "lower c' = ''email'' \<or> lower c' \<in> {''date'', ''created_at'', ''lead_date''}"
        "email_label df \<noteq> Some c'" "date_label df \<noteq> Some c'"
      from a(2) have ed: "is_email_name c' \<or> is_date_name c'"
        by (simp only: is_email_name_def is_date_name_def)
      have nr: "c' \<notin> {''__valid_email'', ''lead_day'', ''lead_week''}"
      proof (cases "is_email_name c'")
        case True
        from email_name_not_reserved(1,2,3) [OF True] show ?thesis by simp
      next
        case False
        with ed have "is_date_name c'" by simp
        from date_name_not_reserved [OF this] show ?thesis by simp
      qed
      have m: "c' \<in> set (columns (rename_strip df))"
        using a(1) by (simp only: columns_rename_strip)
      show "column_of out c' = kept R df (column_of (rename_strip df) c')"
        by (rule c(3) [rule_format, OF conjI [OF m conjI [OF a(3) conjI [OF a(4) nr]]]])
    qed
    show ?thesis by (rule conjI [OF c(1) conjI [OF c(2) t]])
  qed
  have 4: "wf_frame df \<and> clean_leads P R df = Inr (out, a, b) \<longrightarrow>
         (\<exists>ec. email_label df = Some ec
            \<and> column_of out ec = map Str (kept R df (canonical_emails R df)))
       \<and> (\<forall>dc. date_label df = Some dc \<longrightarrow>
            to_datetime P (Series (kept R df (column_of (rename_strip df) dc))) = Inr (column_of out dc)
            \<and> column_of out ''lead_day'' = map dt_date (column_of out dc)
            \<and> column_of out ''lead_week'' = map week_start (map to_period_W (column_of out dc)))
       \<and> (\<forall>c'. c' \<in> set (map strip (columns df))
             \<and> (lower c' = ''email'' \<or> lower c' \<in> {''date'', ''created_at'', ''lead_date''})
             \<and> email_label df \<noteq> Some c' \<and> date_label df \<noteq> Some c'
           \<longrightarrow> column_of out c' = kept R df (column_of (rename_strip df) c'))"
    by (intro impI, elim conjE) (rule 3)
  show ?thesis by (rule conjI [OF 1 conjI [OF 2 4]])
qed

text \<open>
  Claim C10 does not hold of the code for every header. In \<open>collide_leads\<close> the labels
  \<open>email\<close> and \<open>email\<close> with a leading blank both match, and they are different labels
  in the file. The claim says that the first of them is the email column and the second is
  kept as an ordinary data column. Line 58 trims both to \<open>email\<close>; the column resolved in
  lines 60 to 64 is \<open>email\<close>, but \<open>df["email"]\<close> is then a \<open>DataFrame\<close> of both columns,
  and line 69 raises \<open>AttributeError\<close>, for every parser and every rendering. \<open>main\<close> does
  not catch the exception.
\<close>

theorem C10_colliding_labels_raise_AttributeError:
  "distinct (columns collide_leads)
   \<and> map strip (columns collide_leads) = [''email'', ''email'']
   \<and> email_label collide_leads = Some ''email''
   \<and> clean_leads P R collide_leads
       = Inl (AttributeError (quoted ''DataFrame'' @ '' object has no attribute '' @ quoted ''str''))
   \<and> main P R collide_leads
       = Uncaught (AttributeError (quoted ''DataFrame'' @ '' object has no attribute '' @ quoted ''str''))"
proof -
  have 1: "distinct (columns collide_leads)" by code_simp
  have 2: "map strip (columns collide_leads) = [''email'', ''email'']" by code_simp
  have 3: "email_label collide_leads = Some ''email''" by code_simp
  have 4: "clean_leads P R collide_leads
       = Inl (AttributeError (quoted ''DataFrame'' @ '' object has no attribute '' @ quoted ''str''))"
    by code_simp
  then have 5: "main P R collide_leads
       = Uncaught (AttributeError (quoted ''DataFrame'' @ '' object has no attribute '' @ quoted ''str''))"
    by (simp add: main_def)
  show ?thesis by (rule conjI [OF 1 conjI [OF 2 conjI [OF 3 conjI [OF 4 5]]]])
qed

section \<open>Deduplication\<close>






lemma sample_valid_stage:
  "bindE (trim_emails sample_repr (rename_strip sample_leads) ''Email'')
     (\<lambda>d. bindE (mark_valid sample_repr d ''Email'') keep_valid) = Inr sample_valid"
  by code_simp










section \<open>Idempotence\<close>

lemma set_select_subset: "set (select m xs) \<subseteq> set xs"
  unfolding select_def by (auto dest: set_zip_rightD)

lemma rename_strip_fixed:
  assumes "\<forall>c \<in> set (columns df). strip c = c"
  shows "rename_strip df = df"
proof -
  have "map (\<lambda>cv. (strip (fst cv), snd cv)) (cols df) = cols df"
    using assms by (intro map_idI) (auto simp: columns_def)
  then show ?thesis by (simp add: rename_strip_def)
qed

lemma setitem_then_drop:
  assumes "c \<notin> set (columns df)"
  shows "drop_column (setitem df c vs) c = Inr df"
proof -
  have "filter (\<lambda>cv. fst cv \<noteq> c) (cols df) = cols df"
    using assms by (auto simp: columns_def filter_id_conv)
  moreover have "c \<in> set (columns (setitem df c vs))" by (simp add: columns_setitem)
  ultimately show ?thesis using assms by (simp add: drop_column_def setitem_def)
qed

text \<open>
  Where the pipeline agrees with claim C9: when the clean table has a record, running
  \<open>clean_leads\<close> on it, with the helper columns present, returns the same table and finds
  no invalid email and no duplicate.
\<close>

lemma clean_leads_idempotent_on_records:
  assumes "wf_frame df" and "clean_leads P R df = Inr (out, invalid_count, removed_dups)"
    and "len out \<noteq> 0"
  shows "clean_leads P R out = Inr (out, 0, 0)"
proof -
  let ?mk = "''__valid_email''"
  note wf = assms(1)
  note ok = wf_cols_ok [OF wf] and dist = wf_distinct [OF wf]
  note run = assms(2)
  from run obtain ec ev where e: "email_label df = Some ec" "getitem (rename_strip df) ec = Inr (Series ev)"
    by (rule clean_leads_email)
  define E where "E = map (\<lambda>e. Str (strip (py_str R e))) ev"
  define M where "M = map (valid_email R) E"
  define ES where "ES = select (map Not (duplicated [] (select M E))) (select M E)"
  note f = clean_leads_facts [OF ok dist run e(1) [unfolded email_label_def] e(2),
      folded E_def, folded M_def, folded ES_def]
  from wf run obtain dc D where lD: "length D = len out" and aD: "list_all is_datetime D"
    and dl: "date_label out = Some dc" and gD: "getitem out dc = Inr (Series D)"
    and gd: "getitem out ''lead_day'' = Inr (Series (map dt_date D))"
    and gw: "getitem out ''lead_week'' = Inr (Series (map week_start (map to_period_W D)))"
    by (rule clean_leads_dates)
  have en: "is_email_name ec" using find_Some_mem [OF f(9)] by simp
  note ne = email_name_not_reserved [OF en]
  \<comment> \<open>the header\<close>
  have s0: "rename_strip out = out" using f(8) by (rule rename_strip_fixed)
  have dn: "find is_date_name (columns out) = Some dc"
    using dl by (simp add: date_label_def s0)
  then have dcn: "is_date_name dc" using find_Some_mem by fastforce
  note nd = date_name_not_reserved [OF dcn]
  \<comment> \<open>the emails\<close>
  have ES_E: "set ES \<subseteq> set (select M E)" unfolding ES_def by (rule set_select_subset)
  have valid: "\<forall>x \<in> set (select M E). valid_email R x"
    by (rule select_pred) (simp_all add: M_def)
  have trimmed: "Str (strip (py_str R x)) = x" if "x \<in> set ES" for x
  proof -
    from that ES_E set_select_subset [of M E] have "x \<in> set E" by blast
    then show ?thesis by (auto simp: E_def strip_idem)
  qed
  have lES: "length ES = len out" using f(5) by simp
  have s2: "trim_emails R out ec = Inr out"
  proof -
    have "map (\<lambda>e. Str (strip (py_str R e))) ES = ES"
      using trimmed by (intro map_idI) simp
    then show ?thesis using f(2) by (simp add: trim_emails_Inr setitem_same)
  qed
  define df3 where "df3 = setitem out ?mk (map (\<lambda>e. Bool True) ES)"
  have s3: "mark_valid R out ec = Inr df3"
  proof -
    have eq: "map (\<lambda>e. Bool (valid_email R e)) ES = map (\<lambda>e. Bool True) ES"
      using valid ES_E by (intro map_cong refl) auto
    show ?thesis unfolding mark_valid_Inr df3_def eq [symmetric] using f(2) by blast
  qed
  have ok3: "cols_ok df3" using f(6) lES by (simp add: df3_def cols_ok_setitem)
  have len3: "len df3 = len out" by (simp add: df3_def)
  have g3: "getitem df3 c = getitem out c" if "c \<noteq> ?mk" for c
    using that by (simp add: df3_def getitem_setitem_other)
  have gm: "getitem df3 ?mk = Inr (Series (map (\<lambda>e. Bool True) ES))"
    by (simp add: df3_def getitem_setitem f(13))
  have ESne: "ES \<noteq> []" using lES assms(3) by auto
  have s4: "keep_valid df3 = Inr df3"
  proof -
    have "take_mask (map (\<lambda>b. b = Bool True) (map (\<lambda>e. Bool True) ES)) df3 = df3"
      using ok3 by (rule take_mask_all_True) (simp_all add: len3 lES)
    then show ?thesis using ESne by (simp add: keep_valid_Inr gm)
  qed
  have s5: "drop_duplicates df3 ec = Inr df3"
  proof -
    have "distinct ES" unfolding ES_def by (rule keep_first_distinct)
    then have "\<forall>b \<in> set (duplicated [] ES). \<not> b" by (rule duplicated_distinct) simp
    then have "take_mask (map Not (duplicated [] ES)) df3 = df3"
      using ok3 by (intro take_mask_all_True) (simp_all add: len3 lES)
    moreover have "getitem df3 ec = Inr (Series ES)" using f(2) ne by (simp add: g3)
    ultimately show ?thesis using drop_duplicates_Series [OF ok3] by simp
  qed
  \<comment> \<open>the dates\<close>
  have c3: "columns df3 = columns out @ [?mk]"
    using f(7) by (simp add: df3_def columns_setitem)
  have s6: "parse_dates P df3 df3 = Inr (df3, dc)"
  proof -
    have "find is_date_name (columns df3) = Some dc"
      unfolding c3 using dn by (rule find_append_Some)
    moreover have "getitem df3 dc = Inr (Series D)" using gD nd by (simp add: g3)
    moreover have "to_datetime P (Series D) = Inr D" using aD by (rule to_datetime_fixed)
    ultimately show ?thesis by (simp add: parse_dates_Inr setitem_same)
  qed
  have s7: "add_helpers df3 dc = Inr df3"
  proof -
    have d: "getitem df3 dc = Inr (Series D)" using gD nd by (simp add: g3)
    have "setitem df3 ''lead_day'' (map dt_date D) = df3"
      using gd by (intro setitem_same) (simp add: g3)
    moreover have "setitem df3 ''lead_week'' (map week_start (map to_period_W D)) = df3"
      using gw by (intro setitem_same) (simp add: g3)
    ultimately show ?thesis using d by (simp add: add_helpers_Inr)
  qed
  have s8: "drop_column df3 ?mk = Inr out"
    unfolding df3_def using f(7) by (rule setitem_then_drop)
  show ?thesis
    using f(9) s2 s3 s4 s5 s6 s7 s8 by (simp add: clean_leads_def s0 bindE_def len3)
qed

text \<open>
  Claim C9 does not hold of the code when the clean table has no record. All three emails
  of \<open>invalid_leads\<close> are invalid, and \<open>clean_leads\<close> returns the clean table
  \<open>invalid_clean\<close>, which has the header and no record, with 3 invalid emails and no
  duplicate. The claim says that \<open>clean_leads\<close> on this clean table returns it again with
  both counters 0. The code raises \<open>KeyError\<close> in line 88, for every parser and every
  rendering: on a frame without rows the marker column of line 72 is not boolean, line 73
  selects no column instead of no row, and the column \<open>date\<close>, which line 88 reads, is not
  there.
\<close>

theorem C9_rerun_on_empty_clean_table_raises_KeyError:
  "wf_frame invalid_leads
   \<and> clean_leads P R invalid_leads = Inr (invalid_clean, 3, 0)
   \<and> wf_frame invalid_clean
   \<and> clean_leads P R invalid_clean = Inl (KeyError ''date'')
   \<and> main P R invalid_clean = Uncaught (KeyError ''date'')"
proof -
  have 1: "wf_frame invalid_leads" by code_simp
  have 2: "clean_leads P R invalid_leads = Inr (invalid_clean, 3, 0)" by code_simp
  have 3: "wf_frame invalid_clean" by code_simp
  have 4: "clean_leads P R invalid_clean = Inl (KeyError ''date'')" by code_simp
  then have 5: "main P R invalid_clean = Uncaught (KeyError ''date'')"
    by (simp add: main_def)
  show ?thesis by (rule conjI [OF 1 conjI [OF 2 conjI [OF 3 conjI [OF 4 5]]]])
qed

end
